theory Spec2Isabelle
  imports Complex_Main "HOL-Library.Product_Lexorder"
begin

section \<open>float32 arithmetic\<close>

text \<open>
  The networks run with \<open>dtype = jnp.float32\<close>. A float32 value is a finite number of the
  binary32 grid (IEEE 754: 24-bit significand, normal exponents from -126 to 127,
  subnormals below), one of the two infinities, or NaN. Zero is kept without a sign.
  Every primitive operation on finite values computes the exact result, rounds it to the
  nearest grid value, ties to the even significand, and gives an infinity when the rounded
  magnitude exceeds the largest finite value.
\<close>

datatype f32 = Fin real | PInf | NInf | NaN

definition pow2 :: "int \<Rightarrow> real" where
  "pow2 e = (if 0 \<le> e then 2 ^ nat e else 1 / 2 ^ nat (- e))"

text \<open>The binade of a magnitude: the largest exponent \<open>e\<close> in -125..127 with
  \<open>2 ^ e \<le> a\<close>, and -126 for everything smaller (the subnormal range).\<close>

primrec f32_exp_search :: "nat \<Rightarrow> real \<Rightarrow> int" where
  "f32_exp_search 0 a = - 126"
| "f32_exp_search (Suc k) a =
     (if pow2 (int (Suc k) - 126) \<le> a then int (Suc k) - 126 else f32_exp_search k a)"

definition f32_exponent :: "real \<Rightarrow> int" where
  "f32_exponent a = f32_exp_search 253 a"

definition round_half_even :: "real \<Rightarrow> int" where
  "round_half_even r =
     (let f = \<lfloor>r\<rfloor>; d = r - of_int f
      in if d < 1 / 2 then f else if 1 / 2 < d then f + 1 else if even f then f else f + 1)"

text \<open>The nearest point of the binary32 grid, before the range check: at and above
  \<open>2 ^ 127\<close> the grid is continued with the spacing \<open>2 ^ 104\<close> of the last binade.\<close>

definition round32 :: "real \<Rightarrow> real" where
  "round32 r =
     (let u = pow2 (f32_exponent \<bar>r\<bar> - 23) in of_int (round_half_even (r / u)) * u)"

text \<open>The largest finite float32 value, \<open>(2 - 2^-23) * 2^127\<close>.\<close>

definition f32_max :: real where
  "f32_max = (2 ^ 24 - 1) * 2 ^ 104"

text \<open>Rounding a real result to float32: beyond the largest finite value the result is
  an infinity.\<close>

definition f32_round :: "real \<Rightarrow> f32" where
  "f32_round r =
     (let v = round32 r
      in if f32_max < v then PInf else if v < - f32_max then NInf else Fin v)"

text \<open>A real number is a float32 value when it lies on the grid and in the finite range.\<close>

definition is_f32 :: "real \<Rightarrow> bool" where
  "is_f32 r \<longleftrightarrow> round32 r = r \<and> \<bar>r\<bar> \<le> f32_max"

definition f32_finite :: "f32 \<Rightarrow> bool" where
  "f32_finite v = (case v of Fin r \<Rightarrow> is_f32 r | _ \<Rightarrow> False)"

fun f32_neg :: "f32 \<Rightarrow> f32" where
  "f32_neg (Fin a) = Fin (- a)"
| "f32_neg PInf = NInf"
| "f32_neg NInf = PInf"
| "f32_neg NaN = NaN"

fun f32_add :: "f32 \<Rightarrow> f32 \<Rightarrow> f32" where
  "f32_add NaN y = NaN"
| "f32_add x NaN = NaN"
| "f32_add (Fin a) (Fin b) = f32_round (a + b)"
| "f32_add PInf NInf = NaN"
| "f32_add NInf PInf = NaN"
| "f32_add PInf y = PInf"
| "f32_add NInf y = NInf"
| "f32_add x PInf = PInf"
| "f32_add x NInf = NInf"

definition f32_sub :: "f32 \<Rightarrow> f32 \<Rightarrow> f32" where
  "f32_sub x y = f32_add x (f32_neg y)"

fun f32_mul :: "f32 \<Rightarrow> f32 \<Rightarrow> f32" where
  "f32_mul NaN y = NaN"
| "f32_mul x NaN = NaN"
| "f32_mul (Fin a) (Fin b) = f32_round (a * b)"
| "f32_mul (Fin a) y = (if a = 0 then NaN else if (0 < a) = (y = PInf) then PInf else NInf)"
| "f32_mul x (Fin b) = (if b = 0 then NaN else if (0 < b) = (x = PInf) then PInf else NInf)"
| "f32_mul x y = (if x = y then PInf else NInf)"

fun f32_div :: "f32 \<Rightarrow> f32 \<Rightarrow> f32" where
  "f32_div NaN y = NaN"
| "f32_div x NaN = NaN"
| "f32_div (Fin a) (Fin b) =
     (if b = 0 then (if a = 0 then NaN else if 0 < a then PInf else NInf)
      else f32_round (a / b))"
| "f32_div (Fin a) y = Fin 0"
| "f32_div x (Fin b) = (if (0 \<le> b) = (x = PInf) then PInf else NInf)"
| "f32_div x y = NaN"

text \<open>The comparison \<open>v >= 0\<close>, which is false of NaN.\<close>

definition f32_nonneg :: "f32 \<Rightarrow> bool" where
  "f32_nonneg v = (case v of Fin r \<Rightarrow> 0 \<le> r | PInf \<Rightarrow> True | _ \<Rightarrow> False)"

text \<open>The order in which \<open>jnp.argmin\<close> ranks float32 values: NaN before every number,
  then the numbers from minus infinity to plus infinity.\<close>

definition f32_key :: "f32 \<Rightarrow> nat \<times> real" where
  "f32_key v = (case v of NaN \<Rightarrow> (0, 0) | NInf \<Rightarrow> (1, 0) | Fin r \<Rightarrow> (2, r) | PInf \<Rightarrow> (3, 0))"

section \<open>Tensors\<close>

text \<open>
  A float tensor of shape \<open>(d1, ..., dn, c)\<close> is kept as its shape and the row-major list
  of its last-axis vectors, which is what \<open>jnp.reshape(x, (-1, x.shape[-1]))\<close> reads.
  An integer tensor is its shape and the row-major list of its entries.
\<close>

record ftensor =
  shape :: "nat list"
  rows :: "f32 list list"

record itensor =
  ishape :: "nat list"
  ivals :: "int list"

datatype tval = Scalar f32 | FTensor ftensor | ITensor itensor

type_synonym result_dict = "string \<rightharpoonup> tval"

definition tmap2 :: "(f32 \<Rightarrow> f32 \<Rightarrow> f32) \<Rightarrow> ftensor \<Rightarrow> ftensor \<Rightarrow> ftensor" where
  "tmap2 f a b = \<lparr>shape = shape a, rows = map2 (map2 f) (rows a) (rows b)\<rparr>"

definition tmap :: "(f32 \<Rightarrow> f32) \<Rightarrow> ftensor \<Rightarrow> ftensor" where
  "tmap f a = \<lparr>shape = shape a, rows = map (map f) (rows a)\<rparr>"

definition t_add :: "ftensor \<Rightarrow> ftensor \<Rightarrow> ftensor" where
  "t_add = tmap2 f32_add"

definition t_sub :: "ftensor \<Rightarrow> ftensor \<Rightarrow> ftensor" where
  "t_sub = tmap2 f32_sub"

definition t_square :: "ftensor \<Rightarrow> ftensor" where
  "t_square = tmap (\<lambda>v. f32_mul v v)"

definition t_neg :: "ftensor \<Rightarrow> ftensor" where
  "t_neg = tmap f32_neg"

definition t_size :: "ftensor \<Rightarrow> nat" where
  "t_size a = length (concat (rows a))"

text \<open>\<open>jnp.mean\<close> over all entries: the sum, accumulated from the left, divided by the
  entry count, the division by that constant being carried out as a multiplication by its
  float32 reciprocal. On a tensor with no entry the sum is 0, the reciprocal of the count
  is infinite, and the mean is NaN.\<close>

definition t_mean :: "ftensor \<Rightarrow> f32" where
  "t_mean a =
     f32_mul (foldl f32_add (Fin 0) (concat (rows a)))
       (f32_div (Fin 1) (f32_round (real (t_size a))))"

definition stop_gradient :: "ftensor \<Rightarrow> ftensor" where
  "stop_gradient a = a"

text \<open>The first position of the least entry of a list.\<close>

fun argmin_acc :: "nat \<Rightarrow> 'a::linorder \<Rightarrow> nat \<Rightarrow> 'a list \<Rightarrow> nat" where
  "argmin_acc best bv i [] = best"
| "argmin_acc best bv i (d # ds) =
     (if d < bv then argmin_acc i d (Suc i) ds else argmin_acc best bv (Suc i) ds)"

definition argmin :: "'a::linorder list \<Rightarrow> nat" where
  "argmin ds = (case ds of [] \<Rightarrow> 0 | d # rest \<Rightarrow> argmin_acc 0 d 1 rest)"

text \<open>\<open>jnp.argmin\<close> along an axis of float32 values: the first position of the least
  entry in the order of \<open>f32_key\<close>. It raises on an axis of length 0; the axis it is
  applied to below has \<open>codebook_size\<close> entries.\<close>

definition f32_argmin :: "f32 list \<Rightarrow> nat" where
  "f32_argmin ds = argmin (map f32_key ds)"

text \<open>\<open>jax.nn.one_hot\<close>: position \<open>k\<close> holds 1 when \<open>k\<close> is the index and 0 otherwise, so
  an index outside \<open>[0, n)\<close> gives a row of zeros.\<close>

definition one_hot :: "int \<Rightarrow> nat \<Rightarrow> f32 list" where
  "one_hot i n = map (\<lambda>k. if int k = i then Fin 1 else Fin 0) [0..<n]"

definition t_one_hot :: "itensor \<Rightarrow> nat \<Rightarrow> ftensor" where
  "t_one_hot ids n = \<lparr>shape = ishape ids @ [n], rows = map (\<lambda>i. one_hot i n) (ivals ids)\<rparr>"

text \<open>\<open>jnp.dot\<close> of a tensor with a matrix: every last-axis vector against every column.\<close>

definition f32_dot :: "f32 list \<Rightarrow> f32 list \<Rightarrow> f32" where
  "f32_dot u v = foldl f32_add (Fin 0) (map2 f32_mul u v)"

definition t_dot :: "ftensor \<Rightarrow> f32 list list \<Rightarrow> ftensor" where
  "t_dot z m =
     \<lparr>shape = butlast (shape z) @ [length (transpose m)],
      rows = map (\<lambda>u. map (f32_dot u) (transpose m)) (rows z)\<rparr>"

text \<open>The exact value of a finite float32 number (0 stands in for the other values), to
  state sums in exact arithmetic.\<close>

definition f32_value :: "f32 \<Rightarrow> real" where
  "f32_value v = (case v of Fin r \<Rightarrow> r | _ \<Rightarrow> 0)"

section \<open>VectorQuantizer\<close>

definition codebook_size :: nat where
  "codebook_size = 1024"

text \<open>
  Modelled from the spec: \<open>losses.squared_euclidean_distance\<close> is not part of the
  source at hand. The spec has it compute the squared Euclidean distance from every
  vector to every codebook entry; as an operation on float32 arrays it returns float32
  values, here the sum of the squared coordinate differences, each step rounded.
\<close>

definition f32_sq_dist :: "f32 list \<Rightarrow> f32 list \<Rightarrow> f32" where
  "f32_sq_dist u c =
     foldl f32_add (Fin 0) (map2 (\<lambda>p q. f32_mul (f32_sub p q) (f32_sub p q)) u c)"

definition squared_euclidean_distance :: "f32 list list \<Rightarrow> f32 list list \<Rightarrow> f32 list list" where
  "squared_euclidean_distance a b = map (\<lambda>u. map (\<lambda>c. f32_sq_dist u c) b) a"

text \<open>The squared Euclidean distance of two real vectors, in exact arithmetic.\<close>

definition sq_dist :: "real list \<Rightarrow> real list \<Rightarrow> real" where
  "sq_dist u c = sum_list (map (\<lambda>(p, q). (p - q) ^ 2) (zip u c))"

text \<open>The codebook parameter is created as a float32 array of shape
  \<open>(codebook_size, x.shape[-1])\<close>; its entries are finite.\<close>

definition codebook_ok :: "f32 list list \<Rightarrow> nat \<Rightarrow> bool" where
  "codebook_ok codebook c \<longleftrightarrow>
     length codebook = codebook_size
     \<and> list_all (\<lambda>r. length r = c \<and> list_all f32_finite r) codebook"

definition quantize :: "f32 list list \<Rightarrow> ftensor \<Rightarrow> ftensor" where
  "quantize codebook z = t_dot z codebook"



definition vq_distances :: "f32 list list \<Rightarrow> ftensor \<Rightarrow> ftensor" where
  "vq_distances codebook x =
     \<lparr>shape = butlast (shape x) @ [codebook_size],
      rows = squared_euclidean_distance (rows x) codebook\<rparr>"

definition t_argmin :: "ftensor \<Rightarrow> itensor" where
  "t_argmin d = \<lparr>ishape = butlast (shape d), ivals = map (\<lambda>r. int (f32_argmin r)) (rows d)\<rparr>"

definition vq_encoding_indices :: "f32 list list \<Rightarrow> ftensor \<Rightarrow> itensor" where
  "vq_encoding_indices codebook x = t_argmin (vq_distances codebook x)"

definition vq_encodings :: "f32 list list \<Rightarrow> ftensor \<Rightarrow> ftensor" where
  "vq_encodings codebook x = t_one_hot (vq_encoding_indices codebook x) codebook_size"

definition vq_quantized :: "f32 list list \<Rightarrow> ftensor \<Rightarrow> ftensor" where
  "vq_quantized codebook x = quantize codebook (vq_encodings codebook x)"

definition commitment_cost :: real where
  "commitment_cost = 1 / 4"

definition entropy_loss_ratio :: real where
  "entropy_loss_ratio = 1 / 10"

definition entropy_temperature :: real where
  "entropy_temperature = 1 / 100"

definition entropy_loss_type :: string where
  "entropy_loss_type = ''softmax''"

definition vq_e_latent_loss :: "f32 list list \<Rightarrow> ftensor \<Rightarrow> f32" where
  "vq_e_latent_loss codebook x =
     f32_mul (t_mean (t_square (t_sub (stop_gradient (vq_quantized codebook x)) x)))
       (f32_round commitment_cost)"

definition vq_q_latent_loss :: "f32 list list \<Rightarrow> ftensor \<Rightarrow> f32" where
  "vq_q_latent_loss codebook x =
     t_mean (t_square (t_sub (vq_quantized codebook x) (stop_gradient x)))"

text \<open>\<open>losses.entropy_loss\<close> is not part of the source at hand; it is the parameter
  \<open>entropy_loss\<close>, called on the negated distances, the loss type and the temperature.\<close>

definition vq_entropy_loss ::
  "(ftensor \<Rightarrow> string \<Rightarrow> real \<Rightarrow> f32) \<Rightarrow> f32 list list \<Rightarrow> ftensor \<Rightarrow> f32" where
  "vq_entropy_loss entropy_loss codebook x =
     (if entropy_loss_ratio \<noteq> 0
      then f32_mul
             (entropy_loss (t_neg (vq_distances codebook x)) entropy_loss_type entropy_temperature)
             (f32_round entropy_loss_ratio)
      else Fin 0)"

definition vq_loss ::
  "(ftensor \<Rightarrow> string \<Rightarrow> real \<Rightarrow> f32) \<Rightarrow> f32 list list \<Rightarrow> ftensor \<Rightarrow> f32" where
  "vq_loss entropy_loss codebook x =
     f32_add (f32_add (vq_e_latent_loss codebook x) (vq_q_latent_loss codebook x))
       (vq_entropy_loss entropy_loss codebook x)"

text \<open>\<open>VectorQuantizer.__call__\<close>: the pair of the returned tensor and \<open>result_dict\<close>.\<close>

definition vq_call ::
  "(ftensor \<Rightarrow> string \<Rightarrow> real \<Rightarrow> f32) \<Rightarrow> bool \<Rightarrow> f32 list list \<Rightarrow> ftensor
     \<Rightarrow> ftensor \<times> result_dict" where
  "vq_call entropy_loss train codebook x =
     (let encoding_indices = vq_encoding_indices codebook x;
          encodings = vq_encodings codebook x;
          quantized = vq_quantized codebook x;
          result_dict =
            (if train
             then [''quantizer_loss'' \<mapsto> Scalar (vq_loss entropy_loss codebook x),
                   ''e_latent_loss'' \<mapsto> Scalar (vq_e_latent_loss codebook x),
                   ''q_latent_loss'' \<mapsto> Scalar (vq_q_latent_loss codebook x),
                   ''entropy_loss'' \<mapsto> Scalar (vq_entropy_loss entropy_loss codebook x)]
             else (Map.empty :: result_dict));
          quantized =
            (if train then t_add x (stop_gradient (t_sub quantized x)) else quantized)
      in (quantized,
          result_dict(''encodings'' \<mapsto> FTensor encodings,
                      ''encoding_indices'' \<mapsto> ITensor encoding_indices,
                      ''raw'' \<mapsto> FTensor x)))"



text \<open>A feature grid of finite float32 values with \<open>c\<close> channels.\<close>

definition finite_grid :: "ftensor \<Rightarrow> nat \<Rightarrow> bool" where
  "finite_grid x c \<longleftrightarrow> list_all (\<lambda>r. length r = c \<and> list_all f32_finite r) (rows x)"

section \<open>Layers\<close>

text \<open>
  Normalization, activation, convolution and resampling are supplied from outside
  (\<open>nn.Conv\<close>, \<open>layers.get_norm_layer\<close>, \<open>nn.swish\<close>, \<open>layers.dsample\<close>,
  \<open>layers.upsample\<close>, \<open>jax.nn.sigmoid\<close>), so the towers are written over a record of
  these operations on an arbitrary tensor type. Every call of \<open>conv_fn(...)\<close> or
  \<open>norm_fn()\<close> creates a layer of its own; a layer is named by the path of the modules
  around it and its number among the layers of its kind in its module.
\<close>

type_synonym path = "(string \<times> nat) list"

record 'a layers =
  conv :: "path \<Rightarrow> nat \<Rightarrow> nat \<times> nat \<Rightarrow> nat \<times> nat \<Rightarrow> bool \<Rightarrow> 'a \<Rightarrow> 'a"
  norm :: "path \<Rightarrow> 'a \<Rightarrow> 'a"
  activation :: "'a \<Rightarrow> 'a"
  dsample :: "'a \<Rightarrow> 'a"
  upsample :: "'a \<Rightarrow> nat \<Rightarrow> 'a"
  sigmoid :: "'a \<Rightarrow> 'a"
  add :: "'a \<Rightarrow> 'a \<Rightarrow> 'a"
  last_dim :: "'a \<Rightarrow> nat"

section \<open>ResBlock\<close>

text \<open>The branch of a residual block: norm, activation, 3x3 convolution without bias,
  twice.\<close>

definition res_branch :: "'a layers \<Rightarrow> path \<Rightarrow> nat \<Rightarrow> 'a \<Rightarrow> 'a" where
  "res_branch L scope filters x =
     (let x = norm L (scope @ [(''norm'', 0)]) x;
          x = activation L x;
          x = conv L (scope @ [(''conv'', 0)]) filters (3, 3) (1, 1) False x;
          x = norm L (scope @ [(''norm'', 1)]) x;
          x = activation L x;
          x = conv L (scope @ [(''conv'', 1)]) filters (3, 3) (1, 1) False x
      in x)"

definition ResBlock :: "'a layers \<Rightarrow> path \<Rightarrow> nat \<Rightarrow> bool \<Rightarrow> 'a \<Rightarrow> 'a" where
  "ResBlock L scope filters use_conv_shortcut x =
     (let input_dim = last_dim L x;
          residual = x;
          x = res_branch L scope filters x;
          residual =
            (if input_dim \<noteq> filters
             then (if use_conv_shortcut
                   then conv L (scope @ [(''conv'', 2)]) filters (3, 3) (1, 1) False x
                   else conv L (scope @ [(''conv'', 2)]) filters (1, 1) (1, 1) False x)
             else residual)
      in add L x residual)"

section \<open>Encoder and Decoder\<close>

definition tower_filters :: nat where
  "tower_filters = 128"

definition num_res_blocks :: nat where
  "num_res_blocks = 2"

definition channel_multipliers :: "nat list" where
  "channel_multipliers = [1, 1, 2, 2, 4]"

definition embedding_dim :: nat where
  "embedding_dim = 10"

definition conv_downsample :: bool where
  "conv_downsample = False"

definition num_blocks :: nat where
  "num_blocks = length channel_multipliers"

text \<open>\<open>for _ in range(n): x = ResBlock(filters, **block_args)(x)\<close>, the blocks numbered
  from \<open>b\<close>; \<open>block_args\<close> sets \<open>use_conv_shortcut=False\<close>.\<close>

fun res_blocks :: "'a layers \<Rightarrow> path \<Rightarrow> nat \<Rightarrow> nat \<Rightarrow> nat \<Rightarrow> 'a \<Rightarrow> 'a" where
  "res_blocks L scope filters b 0 x = x"
| "res_blocks L scope filters b (Suc n) x =
     res_blocks L scope filters (Suc b) n
       (ResBlock L (scope @ [(''ResBlock'', b)]) filters False x)"

fun encoder_stages :: "'a layers \<Rightarrow> path \<Rightarrow> nat list \<Rightarrow> 'a \<Rightarrow> 'a" where
  "encoder_stages L scope [] x = x"
| "encoder_stages L scope (i # stages) x =
     (let filters = tower_filters * channel_multipliers ! i;
          x = res_blocks L scope filters (i * num_res_blocks) num_res_blocks x;
          x = (if i < num_blocks - 1
               then (if conv_downsample
                     then conv L (scope @ [(''conv'', Suc i)]) filters (4, 4) (2, 2) True x
                     else dsample L x)
               else x)
      in encoder_stages L scope stages x)"

definition Encoder :: "'a layers \<Rightarrow> path \<Rightarrow> 'a \<Rightarrow> 'a" where
  "Encoder L scope x =
     (let x = conv L (scope @ [(''conv'', 0)]) tower_filters (3, 3) (1, 1) False x;
          x = encoder_stages L scope [0..<num_blocks] x;
          filters = tower_filters * channel_multipliers ! (num_blocks - 1);
          x = res_blocks L scope filters (num_blocks * num_res_blocks) num_res_blocks x;
          x = norm L (scope @ [(''norm'', 0)]) x;
          x = activation L x;
          x = conv L (scope @ [(''conv'', 1)]) embedding_dim (1, 1) (1, 1) True x
      in x)"

fun decoder_stages :: "'a layers \<Rightarrow> path \<Rightarrow> nat list \<Rightarrow> 'a \<Rightarrow> 'a" where
  "decoder_stages L scope [] x = x"
| "decoder_stages L scope (i # stages) x =
     (let filters = tower_filters * channel_multipliers ! i;
          x = res_blocks L scope filters ((num_blocks - i) * num_res_blocks) num_res_blocks x;
          x = (if 0 < i
               then conv L (scope @ [(''conv'', num_blocks - i)]) filters (3, 3) (1, 1) True
                      (upsample L x 2)
               else x)
      in decoder_stages L scope stages x)"

definition Decoder :: "'a layers \<Rightarrow> path \<Rightarrow> nat \<Rightarrow> 'a \<Rightarrow> 'a" where
  "Decoder L scope output_dim x =
     (let filters = tower_filters * channel_multipliers ! (num_blocks - 1);
          x = conv L (scope @ [(''conv'', 0)]) filters (3, 3) (1, 1) True x;
          x = res_blocks L scope filters 0 num_res_blocks x;
          x = decoder_stages L scope (rev [0..<num_blocks]) x;
          x = norm L (scope @ [(''norm'', 0)]) x;
          x = activation L x;
          x = conv L (scope @ [(''conv'', num_blocks)]) output_dim (3, 3) (1, 1) True x;
          x = sigmoid L x
      in x)"

section \<open>VQVAE\<close>

text \<open>
  The quantizer of the autoencoder is a field (\<open>self.quantizer\<close>); the model reaches it
  through its three entry points. \<open>result_dict\<close> maps names to values of type \<open>'v\<close>, and
  \<open>decode_ids\<close> takes such a value.
\<close>

datatype error = KeyError string | TypeError

record ('a, 'v, 'c) quantizer =
  q_call :: "'a \<Rightarrow> 'a \<times> (string \<rightharpoonup> 'v)"
  q_get_codebook :: "'c"
  q_decode_ids :: "'v \<Rightarrow> error + 'a"


definition vqvae_output_dim :: nat where
  "vqvae_output_dim = 3"

definition vqvae_encoder :: "'a layers \<Rightarrow> 'a \<Rightarrow> 'a" where
  "vqvae_encoder L img = Encoder L [(''encoder'', 0)] img"

definition vqvae_decoder :: "'a layers \<Rightarrow> 'a \<Rightarrow> 'a" where
  "vqvae_decoder L x = Decoder L [(''decoder'', 0)] vqvae_output_dim x"

definition vqvae_encode ::
  "'a layers \<Rightarrow> ('a, 'v, 'c) quantizer \<Rightarrow> 'a \<Rightarrow> 'a \<times> (string \<rightharpoonup> 'v)" where
  "vqvae_encode L Q img = (let encoded_feature = vqvae_encoder L img in q_call Q encoded_feature)"


definition vqvae_get_codebook :: "('a, 'v, 'c) quantizer \<Rightarrow> 'c" where
  "vqvae_get_codebook Q = q_get_codebook Q"



definition vqvae_call :: "'a layers \<Rightarrow> ('a, 'v, 'c) quantizer \<Rightarrow> 'a \<Rightarrow> 'a" where
  "vqvae_call L Q img =
     (let (quantized, result_dict) = vqvae_encode L Q img;
          outputs = vqvae_decoder L quantized
      in outputs)"


section \<open>Shapes\<close>

text \<open>
  Modelled from the spec: \<open>layers.get_norm_layer\<close>, \<open>layers.dsample\<close>,
  \<open>layers.upsample\<close> and the quantizer in use, \<open>quantizers.FSQ_Level2\<close>, are not part of
  the source at hand. The spec has normalization and activation keep the shape, the
  downsampling and upsampling operators resize the two spatial axes by a factor of 2, and
  the quantized grid have the shape of the feature grid. \<open>nn.Conv\<close> pads with
  \<open>SAME\<close> by default: it divides each spatial axis by its stride, rounding up, and sets
  the channel count. The operations read a tensor through its shape \<open>(B, H, W, C)\<close>;
  \<open>None\<close> is a shape error.
\<close>

definition shape_conv ::
  "path \<Rightarrow> nat \<Rightarrow> nat \<times> nat \<Rightarrow> nat \<times> nat \<Rightarrow> bool \<Rightarrow> nat list option \<Rightarrow> nat list option" where
  "shape_conv name features kernel_size strides use_bias s =
     (case s of
        Some [b, h, w, c] \<Rightarrow>
          (if fst strides = 0 \<or> snd strides = 0 then None
           else Some [b, (h + fst strides - 1) div fst strides,
                      (w + snd strides - 1) div snd strides, features])
      | _ \<Rightarrow> None)"

definition shape_dsample :: "nat list option \<Rightarrow> nat list option" where
  "shape_dsample s =
     (case s of Some [b, h, w, c] \<Rightarrow> Some [b, h div 2, w div 2, c] | _ \<Rightarrow> None)"

definition shape_upsample :: "nat list option \<Rightarrow> nat \<Rightarrow> nat list option" where
  "shape_upsample s factor =
     (case s of Some [b, h, w, c] \<Rightarrow> Some [b, h * factor, w * factor, c] | _ \<Rightarrow> None)"

definition shape_add :: "nat list option \<Rightarrow> nat list option \<Rightarrow> nat list option" where
  "shape_add s t = (if s = t then s else None)"

definition shape_last_dim :: "nat list option \<Rightarrow> nat" where
  "shape_last_dim s = (case s of Some (d # ds) \<Rightarrow> last (d # ds) | _ \<Rightarrow> 0)"

definition shape_layers :: "nat list option layers" where
  "shape_layers =
     \<lparr>conv = shape_conv, norm = (\<lambda>name s. s), activation = (\<lambda>s. s),
      dsample = shape_dsample, upsample = shape_upsample, sigmoid = (\<lambda>s. s),
      add = shape_add, last_dim = shape_last_dim\<rparr>"

definition shape_quantizer :: "(nat list option, nat list option, unit) quantizer" where
  "shape_quantizer =
     \<lparr>q_call = (\<lambda>s. (s, [''encoding_indices'' \<mapsto> map_option butlast s])),
      q_get_codebook = (),
      q_decode_ids = (\<lambda>s. Inr (map_option (\<lambda>d. d @ [embedding_dim]) s))\<rparr>"

section \<open>Example inputs\<close>

text \<open>A codebook of 1024 one-channel entries, the first close to zero, and a feature grid
  of shape \<open>(1, 1, 1, 1)\<close> holding the value 1.\<close>

definition ex_codebook :: "f32 list list" where
  "ex_codebook = [Fin (1 / 2 ^ 30)] # replicate 1023 [Fin 4]"

definition ex_x :: ftensor where
  "ex_x = \<lparr>shape = [1, 1, 1, 1], rows = [[Fin 1]]\<rparr>"



text \<open>A codebook whose first two entries are so close to zero that their squares are
  below the smallest positive float32 value, and the feature grid holding the value 0.\<close>

definition ex_codebook_tiny :: "f32 list list" where
  "ex_codebook_tiny = [Fin (1 / 2 ^ 80)] # [Fin (1 / 2 ^ 90)] # replicate 1022 [Fin 4]"

definition ex_x_zero :: ftensor where
  "ex_x_zero = \<lparr>shape = [1, 1, 1, 1], rows = [[Fin 0]]\<rparr>"

text \<open>A feature grid for a batch of size 0.\<close>

definition ex_x_empty :: ftensor where
  "ex_x_empty = \<lparr>shape = [0, 1, 1, 1], rows = []\<rparr>"



definition ex_entropy_loss :: "ftensor \<Rightarrow> string \<Rightarrow> real \<Rightarrow> f32" where
  "ex_entropy_loss logits loss_type temperature = Fin 0"

section \<open>Properties of float32 rounding\<close>

lemma pow2_pos: "0 < pow2 e"
  by (simp add: pow2_def)

lemma pow2_powr: "pow2 e = 2 powr (real_of_int e)"
  by (simp add: pow2_def powr_real_of_int inverse_eq_divide)

lemma pow2_mono: "a \<le> b \<Longrightarrow> pow2 a \<le> pow2 b"
  by (simp add: pow2_powr)

lemma pow2_less_iff: "pow2 a < pow2 b \<longleftrightarrow> a < b"
  by (simp add: pow2_powr)

lemma pow2_shift: "pow2 (e - 23) = pow2 e / 2 ^ 23"
proof -
  have "(2::real) powr 23 = 2 ^ 23"
    using powr_realpow[of "2::real" 23] by simp
  then show ?thesis by (simp add: pow2_powr powr_diff)
qed

lemma f32_exp_search_zero: "f32_exp_search k 0 = - 126"
  by (induction k) (simp_all add: not_le pow2_pos)

lemma f32_exp_search_le: "f32_exp_search k a \<le> int k - 126"
  by (induction k) auto

lemma f32_exp_search_spec: "f32_exp_search k a = - 126 \<or> pow2 (f32_exp_search k a) \<le> a"
  by (induction k) auto

lemma f32_exp_search_eq:
  assumes "- 126 \<le> e" "e \<le> int k - 126" "pow2 e \<le> a" "a < pow2 (e + 1)"
  shows "f32_exp_search k a = e"
  using assms
proof (induction k)
  case 0
  then show ?case by simp
next
  case (Suc k)
  show ?case
  proof (cases "pow2 (int (Suc k) - 126) \<le> a")
    case True
    then have "pow2 (int (Suc k) - 126) < pow2 (e + 1)" using Suc.prems(4) by simp
    then have "int (Suc k) - 126 < e + 1" by (simp only: pow2_less_iff)
    then show ?thesis using True Suc.prems(2) by simp
  next
    case False
    then have "pow2 e < pow2 (int (Suc k) - 126)" using Suc.prems(3) by simp
    then have "e < int (Suc k) - 126" by (simp only: pow2_less_iff)
    then have "e \<le> int k - 126" by simp
    from Suc.IH[OF Suc.prems(1) this Suc.prems(3,4)] False show ?thesis by simp
  qed
qed

lemma f32_exp_search_sub: "a < pow2 (- 125) \<Longrightarrow> f32_exp_search k a = - 126"
proof (induction k)
  case 0
  show ?case by simp
next
  case (Suc k)
  have "pow2 (- 125) \<le> pow2 (int (Suc k) - 126)" by (rule pow2_mono) simp
  then have "\<not> pow2 (int (Suc k) - 126) \<le> a" using Suc.prems by simp
  then show ?case using Suc by simp
qed

lemma f32_exponent_le: "f32_exponent a \<le> 127"
  using f32_exp_search_le[of 253 a] by (simp add: f32_exponent_def)

lemma f32_exponent_spec: "f32_exponent a = - 126 \<or> pow2 (f32_exponent a) \<le> a"
  unfolding f32_exponent_def by (rule f32_exp_search_spec)

lemma round32_zero: "round32 0 = 0"
  by (simp add: round32_def round_half_even_def)

lemma round32_eval:
  assumes "- 126 \<le> e" "e \<le> 127" "pow2 e \<le> \<bar>r\<bar>" "\<bar>r\<bar> < pow2 (e + 1)"
  shows "round32 r = of_int (round_half_even (r / pow2 (e - 23))) * pow2 (e - 23)"
proof -
  have "f32_exponent \<bar>r\<bar> = e"
    unfolding f32_exponent_def by (rule f32_exp_search_eq) (use assms in simp_all)
  then show ?thesis by (simp add: round32_def Let_def)
qed

lemma round32_eval_sub:
  assumes "\<bar>r\<bar> < pow2 (- 125)"
  shows "round32 r = of_int (round_half_even (r / pow2 (- 149))) * pow2 (- 149)"
proof -
  have "f32_exponent \<bar>r\<bar> = - 126"
    unfolding f32_exponent_def by (rule f32_exp_search_sub) (rule assms)
  then show ?thesis by (simp add: round32_def Let_def)
qed

lemma round32_one: "round32 1 = 1"
  by (subst round32_eval[of 0]) (simp_all add: pow2_def round_half_even_def Let_def)

lemma round_half_even_nonneg: "0 \<le> r \<Longrightarrow> 0 \<le> round_half_even r"
  by (auto simp: round_half_even_def Let_def)

lemma round32_nonneg: "0 \<le> r \<Longrightarrow> 0 \<le> round32 r"
  using pow2_pos[of "f32_exponent \<bar>r\<bar> - 23"]
  by (auto simp: round32_def Let_def intro!: mult_nonneg_nonneg round_half_even_nonneg)

lemma f32_max_pos: "0 < f32_max"
  by (simp add: f32_max_def)

lemma f32_round_id: "is_f32 r \<Longrightarrow> f32_round r = Fin r"
  by (auto simp: f32_round_def is_f32_def Let_def)

lemma is_f32_zero: "is_f32 0"
  using f32_max_pos by (simp add: is_f32_def round32_zero)

lemma is_f32_one: "is_f32 1"
  by (simp add: is_f32_def round32_one f32_max_def)

lemma f32_round_zero: "f32_round 0 = Fin 0"
  by (rule f32_round_id) (rule is_f32_zero)

lemma f32_round_one: "f32_round 1 = Fin 1"
  by (rule f32_round_id) (rule is_f32_one)

lemma f32_round_nonneg: "0 \<le> r \<Longrightarrow> f32_nonneg (f32_round r)"
  using round32_nonneg[of r] f32_max_pos
  by (auto simp: f32_round_def f32_nonneg_def Let_def)

lemma f32_key_Fin: "f32_key (Fin a) \<le> f32_key (Fin b) \<longleftrightarrow> a \<le> b"
  "f32_key (Fin a) < f32_key (Fin b) \<longleftrightarrow> a < b"
  by (auto simp: f32_key_def)

lemma round_half_even_bounds:
  "of_int (round_half_even t) \<le> t + 1" "t - 1 \<le> of_int (round_half_even t)"
  "\<lfloor>t\<rfloor> \<le> round_half_even t"
  unfolding round_half_even_def Let_def by (auto simp: ) linarith+

lemma round32_upper:
  assumes "0 \<le> r"
  shows "round32 r \<le> r + 2 ^ 104"
proof -
  let ?u = "pow2 (f32_exponent \<bar>r\<bar> - 23)"
  have u: "0 < ?u" by (rule pow2_pos)
  have "?u \<le> pow2 104"
    by (rule pow2_mono) (use f32_exponent_le[of "\<bar>r\<bar>"] in simp)
  then have ule: "?u \<le> 2 ^ 104" by (simp add: pow2_def)
  have "round32 r = of_int (round_half_even (r / ?u)) * ?u"
    by (simp add: round32_def Let_def)
  also have "\<dots> \<le> (r / ?u + 1) * ?u"
    using u round_half_even_bounds(1)[of "r / ?u"] by (intro mult_right_mono) simp_all
  also have "\<dots> = r + ?u" using u by (simp add: field_simps)
  finally show ?thesis using ule by simp
qed

lemma round32_pos:
  assumes "1 / 2 ^ 149 \<le> r"
  shows "0 < round32 r"
proof -
  have rp: "0 < r"
  proof -
    have "(0::real) < 1 / 2 ^ 149" by simp
    then show ?thesis using assms by linarith
  qed
  let ?e = "f32_exponent \<bar>r\<bar>"
  let ?u = "pow2 (?e - 23)"
  have u: "0 < ?u" by (rule pow2_pos)
  have ur: "?u \<le> r"
  proof (cases "?e = - 126")
    case True
    then have "?u = 1 / 2 ^ 149" by (simp add: pow2_def)
    then show ?thesis using assms by simp
  next
    case False
    then have "pow2 ?e \<le> \<bar>r\<bar>" using f32_exponent_spec[of "\<bar>r\<bar>"] by blast
    moreover have "?u \<le> pow2 ?e" by (rule pow2_mono) simp
    ultimately show ?thesis using rp by simp
  qed
  then have "1 \<le> r / ?u" using u by (simp add: field_simps)
  then have "1 \<le> \<lfloor>r / ?u\<rfloor>" by (simp add: le_floor_iff)
  then have "1 \<le> round_half_even (r / ?u)"
    using round_half_even_bounds(3)[of "r / ?u"] by linarith
  then have "(1::real) \<le> of_int (round_half_even (r / ?u))" by linarith
  then have "1 * ?u \<le> of_int (round_half_even (r / ?u)) * ?u"
    using u by (intro mult_right_mono) simp_all
  then show ?thesis using u by (simp add: round32_def Let_def)
qed

lemma round32_lower:
  assumes "1 \<le> r"
  shows "r / 2 \<le> round32 r"
proof -
  let ?e = "f32_exponent \<bar>r\<bar>"
  let ?u = "pow2 (?e - 23)"
  have u: "0 < ?u" by (rule pow2_pos)
  have er: "pow2 ?e \<le> r"
  proof (cases "?e = - 126")
    case True
    then have "pow2 ?e = 1 / 2 ^ 126" by (simp add: pow2_def)
    also have "\<dots> \<le> (1::real)" by simp
    finally show ?thesis using assms by simp
  next
    case False
    then have "pow2 ?e \<le> \<bar>r\<bar>" using f32_exponent_spec[of "\<bar>r\<bar>"] by blast
    then show ?thesis using assms by simp
  qed
  have "?u = pow2 ?e / 2 ^ 23" by (rule pow2_shift)
  also have "\<dots> \<le> r / 2 ^ 23" using er by (simp add: divide_right_mono)
  also have "\<dots> \<le> r / 2" using assms by (simp add: field_simps)
  finally have ur: "?u \<le> r / 2" .
  have "(r / ?u - 1) * ?u \<le> of_int (round_half_even (r / ?u)) * ?u"
    using u round_half_even_bounds(2)[of "r / ?u"] by (intro mult_right_mono) simp_all
  moreover have "(r / ?u - 1) * ?u = r - ?u" using u by (simp add: field_simps)
  ultimately have "r - ?u \<le> round32 r" by (simp add: round32_def Let_def)
  then show ?thesis using ur by simp
qed

lemma f32_round_Fin:
  "- f32_max \<le> round32 r \<Longrightarrow> round32 r \<le> f32_max \<Longrightarrow> f32_round r = Fin (round32 r)"
  by (simp add: f32_round_def Let_def)

lemma f32_recip_count:
  assumes "0 < n" "n < 2 ^ 64"
  shows "\<exists>p. 0 < p \<and> f32_div (Fin 1) (f32_round (real n)) = Fin p"
proof -
  let ?m = "round32 (real n)"
  have n1: "1 \<le> real n" using assms(1) by simp
  have "real n < real (2 ^ 64)" using assms(2) by (simp only: of_nat_less_iff)
  then have nu: "real n < 2 ^ 64" by simp
  have mlow: "1 / 2 \<le> ?m" using round32_lower[OF n1] n1 by simp
  have mup: "?m \<le> 2 ^ 64 + 2 ^ 104" using round32_upper[of "real n"] nu by simp
  have mfin: "f32_round (real n) = Fin ?m"
    by (rule f32_round_Fin) (use mlow mup in \<open>simp_all add: f32_max_def\<close>)
  have mpos: "0 < ?m" using mlow by simp
  let ?p = "round32 (1 / ?m)"
  have "1 / (2 ^ 149) \<le> 1 / ?m"
    using mup mpos by (intro divide_left_mono) simp_all
  then have ppos: "0 < ?p" by (rule round32_pos)
  have "1 / ?m \<le> 2" using mlow mpos by (simp add: field_simps)
  then have pup: "?p \<le> 2 + 2 ^ 104"
    using round32_upper[of "1 / ?m"] mpos by simp
  have pfin: "f32_round (1 / ?m) = Fin ?p"
    by (rule f32_round_Fin) (use ppos pup in \<open>simp_all add: f32_max_def\<close>)
  show ?thesis using mfin pfin ppos mpos by auto
qed

lemma f32_round_not_NaN: "f32_round r \<noteq> NaN"
  by (simp add: f32_round_def Let_def)

lemma f32_nonneg_simps:
  "f32_nonneg (Fin r) \<longleftrightarrow> 0 \<le> r" "f32_nonneg PInf" "\<not> f32_nonneg NInf" "\<not> f32_nonneg NaN"
  by (simp_all add: f32_nonneg_def)

lemma f32_add_nonneg: "f32_nonneg a \<Longrightarrow> f32_nonneg b \<Longrightarrow> f32_nonneg (f32_add a b)"
  by (cases a; cases b) (simp_all add: f32_nonneg_simps f32_round_nonneg)

lemma f32_square_nonneg: "v \<noteq> NaN \<Longrightarrow> f32_nonneg (f32_mul v v)"
  by (cases v) (simp_all add: f32_nonneg_simps f32_round_nonneg)

lemma f32_sub_finite_not_NaN: "f32_sub (Fin a) (Fin b) \<noteq> NaN"
  by (simp add: f32_sub_def f32_round_not_NaN)

lemma f32_mul_nonneg_pos: "f32_nonneg a \<Longrightarrow> 0 < p \<Longrightarrow> f32_nonneg (f32_mul a (Fin p))"
  by (cases a) (simp_all add: f32_nonneg_simps f32_round_nonneg)

section \<open>Properties of argmin and one_hot\<close>

lemma argmin_acc_less: "best < i \<Longrightarrow> argmin_acc best bv i ds < i + length ds"
proof (induction ds arbitrary: best bv i)
  case Nil
  then show ?case by simp
next
  case (Cons d ds)
  have "argmin_acc i d (Suc i) ds < Suc i + length ds"
    by (rule Cons.IH) simp
  moreover have "argmin_acc best bv (Suc i) ds < Suc i + length ds"
    by (rule Cons.IH) (use Cons.prems in simp)
  ultimately show ?case by simp
qed

lemma argmin_less: "ds \<noteq> [] \<Longrightarrow> argmin ds < length ds"
  using argmin_acc_less[of 0 1 "hd ds" "tl ds"]
  by (cases ds) (auto simp: argmin_def)

lemma f32_argmin_less: "ds \<noteq> [] \<Longrightarrow> f32_argmin ds < length ds"
  using argmin_less[of "map f32_key ds"] by (simp add: f32_argmin_def)

lemma argmin_acc_keep: "\<forall>d\<in>set ds. \<not> d < bv \<Longrightarrow> argmin_acc best bv i ds = best"
  by (induction ds arbitrary: i) simp_all

lemma sed_row_length:
  "r \<in> set (squared_euclidean_distance a b) \<Longrightarrow> length r = length b"
  by (auto simp: squared_euclidean_distance_def)

lemma vq_indices_bound:
  assumes "length codebook = codebook_size" "i \<in> set (ivals (vq_encoding_indices codebook x))"
  shows "0 \<le> i \<and> i < int codebook_size"
proof -
  from assms(2) obtain r where r: "r \<in> set (squared_euclidean_distance (rows x) codebook)"
    and i: "i = int (f32_argmin r)"
    by (auto simp: vq_encoding_indices_def t_argmin_def vq_distances_def)
  have len: "length r = codebook_size" using sed_row_length[OF r] assms(1) by simp
  then have "r \<noteq> []" by (auto simp: codebook_size_def)
  from f32_argmin_less[OF this] len i show ?thesis by simp
qed

lemma vq_indices_length: "length (ivals (vq_encoding_indices codebook x)) = length (rows x)"
  by (simp add: vq_encoding_indices_def t_argmin_def vq_distances_def
      squared_euclidean_distance_def)

lemma vq_call_snd:
  "snd (vq_call el train cb x) ''encoding_indices'' = Some (ITensor (vq_encoding_indices cb x))"
  "snd (vq_call el train cb x) ''encodings'' = Some (FTensor (vq_encodings cb x))"
  "snd (vq_call el train cb x) ''raw'' = Some (FTensor x)"
  by (simp_all add: vq_call_def Let_def)

lemma one_hot_split:
  "k < n \<Longrightarrow> one_hot (int k) n = replicate k (Fin 0) @ Fin 1 # replicate (n - Suc k) (Fin 0)"
  by (auto simp: one_hot_def list_eq_iff_nth_eq nth_append nth_Cons split: nat.splits)

lemma one_hot_sum: "k < n \<Longrightarrow> sum_list (map f32_value (one_hot (int k) n)) = 1"
  by (simp add: one_hot_split f32_value_def sum_list_replicate)

lemma f32_finite_simps:
  "f32_finite (Fin r) \<longleftrightarrow> is_f32 r" "\<not> f32_finite PInf" "\<not> f32_finite NInf" "\<not> f32_finite NaN"
  by (simp_all add: f32_finite_def)

lemma one_hot_finite: "list_all f32_finite (one_hot i n)"
  by (auto simp: one_hot_def list_all_iff f32_finite_simps is_f32_zero is_f32_one)

lemma foldl_f32_add_zeros: "is_f32 a \<Longrightarrow> foldl f32_add (Fin a) (replicate m (Fin 0)) = Fin a"
  by (induction m) (simp_all add: f32_round_id)

lemma one_hot_f32_sum: "k < n \<Longrightarrow> foldl f32_add (Fin 0) (one_hot (int k) n) = Fin 1"
  by (simp add: one_hot_split foldl_f32_add_zeros is_f32_zero is_f32_one f32_round_id)

lemma ex_codebook_length: "length ex_codebook = codebook_size"
  by (simp add: ex_codebook_def codebook_size_def)

section \<open>Index range\<close>

text \<open>
  Claim C7. In a forward pass of the vector quantizer whose codebook has its
  \<open>codebook_size = 1024\<close> entries, \<open>result_dict["encoding_indices"]\<close> is the tensor of
  argmin indices, and every one of its values lies in \<open>[0, 1024)\<close>, whatever the input
  feature grid and the training flag.
\<close>

theorem encoding_indices_in_range:
  assumes "length codebook = codebook_size"
  shows "snd (vq_call entropy_loss train codebook x) ''encoding_indices''
           = Some (ITensor (vq_encoding_indices codebook x))
         \<and> (\<forall>i \<in> set (ivals (vq_encoding_indices codebook x)). 0 \<le> i \<and> i < 1024)"
  using vq_indices_bound[OF assms] by (auto simp: vq_call_snd codebook_size_def)


theorem encoding_indices_in_range_witness:
  "length ex_codebook = codebook_size
   \<and> ivals (vq_encoding_indices ex_codebook ex_x) \<noteq> []
   \<and> snd (vq_call ex_entropy_loss True ex_codebook ex_x) ''encoding_indices''
       = Some (ITensor (vq_encoding_indices ex_codebook ex_x))
   \<and> list_all (\<lambda>i. 0 \<le> i \<and> i < 1024) (ivals (vq_encoding_indices ex_codebook ex_x))"
proof -
  have "ivals (vq_encoding_indices ex_codebook ex_x) \<noteq> []"
    using vq_indices_length[of ex_codebook ex_x] by (auto simp: ex_x_def)
  then show ?thesis
    unfolding list_all_iff
    using encoding_indices_in_range[OF ex_codebook_length, of ex_entropy_loss True ex_x]
      ex_codebook_length by blast
qed


section \<open>One-hot consistency\<close>

text \<open>
  Claim C8. With a codebook of \<open>codebook_size\<close> entries, \<open>result_dict["encodings"]\<close> is
  the one-hot tensor of the argmin indices, and at every spatial position its entries
  along the code axis are finite and add up to exactly 1, both as an exact sum and when
  accumulated in float32.
\<close>

theorem encodings_sum_to_one:
  assumes "length codebook = codebook_size"
  shows "snd (vq_call entropy_loss train codebook x) ''encodings''
           = Some (FTensor (vq_encodings codebook x))
         \<and> (\<forall>r \<in> set (rows (vq_encodings codebook x)).
               length r = codebook_size \<and> list_all f32_finite r
               \<and> sum_list (map f32_value r) = 1 \<and> foldl f32_add (Fin 0) r = Fin 1)"
proof -
  have "length r = codebook_size \<and> list_all f32_finite r
        \<and> sum_list (map f32_value r) = 1 \<and> foldl f32_add (Fin 0) r = Fin 1"
    if "r \<in> set (rows (vq_encodings codebook x))" for r
  proof -
    from that obtain i where i: "i \<in> set (ivals (vq_encoding_indices codebook x))"
      and r: "r = one_hot i codebook_size"
      by (auto simp: vq_encodings_def t_one_hot_def)
    from vq_indices_bound[OF assms i] have "0 \<le> i" "i < int codebook_size" by simp_all
    then obtain k where k: "i = int k" "k < codebook_size"
      using nonneg_int_cases by auto
    have len: "length (one_hot (int k) codebook_size) = codebook_size"
      unfolding one_hot_def by simp
    show ?thesis
      unfolding r k(1)
      using one_hot_sum[OF k(2)] one_hot_f32_sum[OF k(2)] len
        one_hot_finite[of "int k" codebook_size] by blast
  qed
  then show ?thesis using vq_call_snd(2)[of entropy_loss train codebook x] by blast
qed

theorem encodings_sum_to_one_witness:
  "length ex_codebook = codebook_size
   \<and> rows (vq_encodings ex_codebook ex_x) \<noteq> []
   \<and> list_all (\<lambda>r. length r = codebook_size \<and> list_all f32_finite r
                  \<and> sum_list (map f32_value r) = 1 \<and> foldl f32_add (Fin 0) r = Fin 1)
         (rows (vq_encodings ex_codebook ex_x))"
proof -
  have "length (rows (vq_encodings ex_codebook ex_x)) = length (rows ex_x)"
    unfolding vq_encodings_def t_one_hot_def using vq_indices_length[of ex_codebook ex_x] by simp
  then have ne: "rows (vq_encodings ex_codebook ex_x) \<noteq> []" by (auto simp: ex_x_def)
  have "\<forall>r \<in> set (rows (vq_encodings ex_codebook ex_x)).
          length r = codebook_size \<and> list_all f32_finite r
          \<and> sum_list (map f32_value r) = 1 \<and> foldl f32_add (Fin 0) r = Fin 1"
    using encodings_sum_to_one[OF ex_codebook_length, of ex_entropy_loss True ex_x] by blast
  then have "list_all (\<lambda>r. length r = codebook_size \<and> list_all f32_finite r
                  \<and> sum_list (map f32_value r) = 1 \<and> foldl f32_add (Fin 0) r = Fin 1)
         (rows (vq_encodings ex_codebook ex_x))"
    by (simp only: list_all_iff)
  with ne ex_codebook_length show ?thesis by blast
qed

section \<open>Shapes of the residual blocks\<close>

lemma shape_res_branch:
  "res_branch shape_layers scope f (Some [b, h, w, c]) = Some [b, h, w, f]"
  by (simp add: res_branch_def shape_layers_def shape_conv_def)

lemma shape_ResBlock:
  "ResBlock shape_layers scope f u (Some [b, h, w, c]) = Some [b, h, w, f]"
  by (simp add: ResBlock_def Let_def shape_res_branch)
     (simp add: shape_layers_def shape_conv_def shape_add_def shape_last_dim_def)

lemma shape_res_blocks:
  "res_blocks shape_layers scope f k n (Some [b, h, w, c]) =
     (if n = 0 then Some [b, h, w, c] else Some [b, h, w, f])"
proof (induction n arbitrary: k c)
  case 0
  then show ?case by simp
next
  case (Suc n)
  show ?case by (simp add: shape_ResBlock Suc.IH)
qed

section \<open>Residual block shortcut\<close>

text \<open>
  Claim C4. In a residual block whose input has as many channels as \<open>filters\<close>, the output
  is the transformed branch plus the unchanged input, with no projection. When the channel
  counts differ, the shortcut is a convolution without bias (3x3 if \<open>use_conv_shortcut\<close> is
  set, 1x1 otherwise) applied to the output of the branch's second convolution, not to the
  input, and the output is the branch output plus that projection.
\<close>

theorem resblock_shortcut:
  "(last_dim L x = filters \<longrightarrow>
      ResBlock L scope filters use_conv_shortcut x = add L (res_branch L scope filters x) x)
   \<and> (last_dim L x \<noteq> filters \<longrightarrow>
      ResBlock L scope filters use_conv_shortcut x =
        add L (res_branch L scope filters x)
          (conv L (scope @ [(''conv'', 2)]) filters
             (if use_conv_shortcut then (3, 3) else (1, 1)) (1, 1) False
             (res_branch L scope filters x)))"
  by (simp add: ResBlock_def Let_def)

theorem resblock_shortcut_witness:
  "shape_last_dim (Some [1, 16, 16, 128]) = 128
   \<and> ResBlock shape_layers [] 128 False (Some [1, 16, 16, 128])
       = shape_add (res_branch shape_layers [] 128 (Some [1, 16, 16, 128])) (Some [1, 16, 16, 128])
   \<and> shape_last_dim (Some [1, 16, 16, 128]) \<noteq> 256
   \<and> ResBlock shape_layers [] 256 False (Some [1, 16, 16, 128])
       = shape_add (res_branch shape_layers [] 256 (Some [1, 16, 16, 128]))
           (shape_conv [(''conv'', 2)] 256 (1, 1) (1, 1) False
              (res_branch shape_layers [] 256 (Some [1, 16, 16, 128])))"
  using resblock_shortcut[of shape_layers "Some [1, 16, 16, 128]" 128 "[]" False]
    resblock_shortcut[of shape_layers "Some [1, 16, 16, 128]" 256 "[]" False]
  by (simp add: shape_layers_def shape_last_dim_def)

section \<open>Shapes of the towers\<close>

lemma upt5: "[0..<5] = [0, 1, 2, 3, 4]"
  by (simp add: upt_rec)

lemma shape_conv_unit:
  "conv shape_layers p f k (Suc 0, Suc 0) u (Some [b, h, w, c]) = Some [b, h, w, f]"
  by (simp add: shape_layers_def shape_conv_def)

lemma shape_pointwise:
  "norm shape_layers p s = s" "activation shape_layers s = s" "sigmoid shape_layers s = s"
  by (simp_all add: shape_layers_def)

lemma shape_resample:
  "dsample shape_layers (Some [b, h, w, c]) = Some [b, h div 2, w div 2, c]"
  "upsample shape_layers (Some [b, h, w, c]) 2 = Some [b, h * 2, w * 2, c]"
  by (simp_all add: shape_layers_def shape_dsample_def shape_upsample_def)

lemma shape_encoder_stages:
  "encoder_stages shape_layers scope [0..<num_blocks] (Some [b, h, w, c]) =
     Some [b, h div 2 div 2 div 2 div 2, w div 2 div 2 div 2 div 2, 512]"
  by (simp add: shape_res_blocks num_res_blocks_def num_blocks_def channel_multipliers_def
      tower_filters_def conv_downsample_def Let_def shape_resample upt5)

lemma last_multiplier: "tower_filters * channel_multipliers ! (num_blocks - 1) = 512"
  by (simp add: tower_filters_def channel_multipliers_def num_blocks_def)

lemma shape_Encoder:
  "Encoder shape_layers scope (Some [b, h, w, c]) =
     Some [b, h div 2 div 2 div 2 div 2, w div 2 div 2 div 2 div 2, embedding_dim]"
  unfolding Encoder_def Let_def last_multiplier
  by (simp add: shape_conv_unit shape_pointwise shape_encoder_stages shape_res_blocks
      num_res_blocks_def)

lemma shape_decoder_stages:
  "decoder_stages shape_layers scope (rev [0..<num_blocks]) (Some [b, h, w, c]) =
     Some [b, h * 2 * 2 * 2 * 2, w * 2 * 2 * 2 * 2, 128]"
  by (simp add: shape_res_blocks num_res_blocks_def num_blocks_def channel_multipliers_def
      tower_filters_def Let_def shape_conv_unit shape_resample upt5)

lemma shape_Decoder:
  "Decoder shape_layers scope d (Some [b, h, w, c]) =
     Some [b, h * 2 * 2 * 2 * 2, w * 2 * 2 * 2 * 2, d]"
  unfolding Decoder_def Let_def last_multiplier
  by (simp add: shape_conv_unit shape_pointwise shape_decoder_stages shape_res_blocks
      num_res_blocks_def)

section \<open>Shape invariance\<close>

text \<open>
  Claim C9. For an input image of shape \<open>(B, H, W, 3)\<close> with \<open>H\<close> and \<open>W\<close> divisible by 16,
  the encoder, with its four downsampling steps, produces a feature grid of shape
  \<open>(B, H / 16, W / 16, 10)\<close>, and the full round trip through encoder, quantizer and
  decoder returns an image of shape \<open>(B, H, W, 3)\<close>.
\<close>

theorem autoencoder_shapes:
  assumes "16 dvd H" "16 dvd W"
  shows "vqvae_encoder shape_layers (Some [B, H, W, 3]) = Some [B, H div 16, W div 16, 10]
         \<and> vqvae_call shape_layers shape_quantizer (Some [B, H, W, 3]) = Some [B, H, W, 3]"
proof -
  have d: "n div 2 div 2 div 2 div 2 = n div 16" for n :: nat
    by (simp add: div_mult2_eq[symmetric])
  have m: "16 * (n div 16) = n" if "16 dvd n" for n :: nat
    using that by (rule dvd_mult_div_cancel)
  have enc: "vqvae_encoder shape_layers (Some [B, H, W, 3]) = Some [B, H div 16, W div 16, 10]"
    by (simp add: vqvae_encoder_def shape_Encoder d embedding_dim_def)
  have "vqvae_call shape_layers shape_quantizer (Some [B, H, W, 3]) = Some [B, H, W, 3]"
    by (simp add: vqvae_call_def vqvae_encode_def enc shape_quantizer_def vqvae_decoder_def
        shape_Decoder vqvae_output_dim_def m[OF assms(1)] m[OF assms(2)])
  with enc show ?thesis by simp
qed

theorem autoencoder_shapes_witness:
  "(16::nat) dvd 32 \<and> (16::nat) dvd 48
   \<and> vqvae_encoder shape_layers (Some [2, 32, 48, 3]) = Some [2, 2, 3, 10]
   \<and> vqvae_call shape_layers shape_quantizer (Some [2, 32, 48, 3]) = Some [2, 32, 48, 3]"
proof -
  have a: "(16::nat) dvd 32" and b: "(16::nat) dvd 48" by simp_all
  show ?thesis using autoencoder_shapes[OF a b, of 2] a b by simp
qed

section \<open>Lookup by one-hot product\<close>

lemma f32_mul_zero: "f32_finite c \<Longrightarrow> f32_mul (Fin 0) c = Fin 0"
  by (cases c) (simp_all add: f32_finite_simps f32_round_zero)

lemma f32_mul_one: "f32_finite c \<Longrightarrow> f32_mul (Fin 1) c = c"
  by (cases c) (simp_all add: f32_finite_simps f32_round_id)

lemma map2_f32_mul_zeros:
  "length v = m \<Longrightarrow> list_all f32_finite v \<Longrightarrow>
     map2 f32_mul (replicate m (Fin 0)) v = replicate m (Fin 0)"
  by (induction v arbitrary: m) (auto simp: f32_mul_zero)

lemma f32_dot_one_hot:
  assumes "k < n" "length v = n" "list_all f32_finite v"
  shows "f32_dot (one_hot (int k) n) v = v ! k"
proof -
  have v: "v = take k v @ v ! k # drop (Suc k) v"
    using assms by (simp add: id_take_nth_drop)
  have fk: "f32_finite (v ! k)"
    using assms by (simp add: list_all_length)
  then obtain r where r: "v ! k = Fin r" "is_f32 r"
    by (cases "v ! k") (simp_all add: f32_finite_simps)
  have "map2 f32_mul (one_hot (int k) n) v =
        map2 f32_mul (replicate k (Fin 0) @ Fin 1 # replicate (n - Suc k) (Fin 0))
          (take k v @ v ! k # drop (Suc k) v)"
    using v one_hot_split[OF assms(1)] by simp
  also have "\<dots> = replicate k (Fin 0) @ v ! k # replicate (n - Suc k) (Fin 0)"
  proof -
    have f1: "list_all f32_finite (take k v)"
      using assms(3) by (auto simp: list_all_iff dest: in_set_takeD)
    have f2: "list_all f32_finite (drop (Suc k) v)"
      using assms(3) by (auto simp: list_all_iff dest: in_set_dropD)
    have z1: "map2 f32_mul (replicate k (Fin 0)) (take k v) = replicate k (Fin 0)"
      by (rule map2_f32_mul_zeros) (use assms f1 in simp_all)
    have z2: "map2 f32_mul (replicate (n - Suc k) (Fin 0)) (drop (Suc k) v)
        = replicate (n - Suc k) (Fin 0)"
      by (rule map2_f32_mul_zeros) (use assms f2 in simp_all)
    have m: "f32_mul (Fin 1) (v ! k) = v ! k"
      by (rule f32_mul_one) (rule fk)
    have l: "length (replicate k (Fin 0)) = length (take k v)"
      using assms by simp
    show ?thesis
      by (simp only: zip_append[OF l] map_append zip_Cons_Cons list.map prod.case z1 z2 m)
  qed
  finally show ?thesis
    using r
    by (simp add: f32_dot_def foldl_f32_add_zeros is_f32_zero f32_round_id)
qed

lemma dot_one_hot_row:
  assumes len: "length cb = n" and k: "k < n"
    and rect: "\<forall>r \<in> set cb. length r = c"
    and fin: "\<forall>r \<in> set cb. list_all f32_finite r"
  shows "map (f32_dot (one_hot (int k) n)) (transpose cb) = cb ! k"
proof -
  have ne: "cb \<noteq> []" using len k by auto
  have tr: "transpose cb = map (\<lambda>i. map (\<lambda>j. cb ! j ! i) [0..<length cb]) [0..<c]"
    by (rule transpose_rectangle) (use ne rect in auto)
  have lk: "length (cb ! k) = c" using rect len k by auto
  have "map (f32_dot (one_hot (int k) n)) (transpose cb) = map (\<lambda>i. cb ! k ! i) [0..<c]"
  proof -
    have "f32_dot (one_hot (int k) n) (map (\<lambda>j. cb ! j ! i) [0..<length cb]) = cb ! k ! i"
      if "i < c" for i
    proof -
      have "f32_finite (cb ! j ! i)" if "j < length cb" for j
      proof -
        have "cb ! j \<in> set cb" using that by simp
        then have "list_all f32_finite (cb ! j)" "length (cb ! j) = c"
          using fin rect by blast+
        then show ?thesis using \<open>i < c\<close> by (simp add: list_all_length)
      qed
      then have "list_all f32_finite (map (\<lambda>j. cb ! j ! i) [0..<length cb])"
        by (simp add: list_all_iff)
      then show ?thesis
        using f32_dot_one_hot[of k n "map (\<lambda>j. cb ! j ! i) [0..<length cb]"] k len by simp
    qed
    then show ?thesis by (simp add: tr)
  qed
  also have "\<dots> = cb ! k" using map_nth[of "cb ! k"] lk by simp
  finally show ?thesis .
qed

lemma codebook_ok_D:
  assumes "codebook_ok cb c"
  shows "length cb = codebook_size" "\<forall>r \<in> set cb. length r = c"
    "\<forall>r \<in> set cb. list_all f32_finite r"
  using assms by (auto simp: codebook_ok_def list_all_iff)

lemma quantize_one_hot_rows:
  assumes ok: "codebook_ok cb c"
    and rng: "\<forall>i \<in> set (ivals ids). 0 \<le> i \<and> i < int codebook_size"
  shows "rows (quantize cb (t_one_hot ids codebook_size)) = map (\<lambda>i. cb ! nat i) (ivals ids)"
proof -
  have "map (f32_dot (one_hot i codebook_size)) (transpose cb) = cb ! nat i"
    if "i \<in> set (ivals ids)" for i
  proof -
    from rng that have "0 \<le> i" "nat i < codebook_size" by auto
    then show ?thesis
      using dot_one_hot_row[of cb codebook_size "nat i" c] codebook_ok_D[OF ok]
      by simp
  qed
  then show ?thesis by (simp add: quantize_def t_dot_def t_one_hot_def)
qed


lemma vq_quantized_rows:
  assumes ok: "codebook_ok cb c"
  shows "rows (vq_quantized cb x) = map (\<lambda>i. cb ! nat i) (ivals (vq_encoding_indices cb x))"
  unfolding vq_quantized_def vq_encodings_def
  by (rule quantize_one_hot_rows[OF ok]) (use vq_indices_bound[OF codebook_ok_D(1)[OF ok]] in blast)

lemma round32_examples:
  "round32 (1 / 2 ^ 30) = 1 / 2 ^ 30" "round32 4 = 4" "round32 (1 / 2 ^ 29) = 1 / 2 ^ 29"
  "round32 (1 / 2 ^ 80) = 1 / 2 ^ 80" "round32 (1 / 2 ^ 90) = 1 / 2 ^ 90"
  "round32 (1 / 4) = 1 / 4"
proof -
  show "round32 (1 / 2 ^ 30) = 1 / 2 ^ 30"
    by (subst round32_eval[of "- 30"]) (simp_all add: pow2_def round_half_even_def Let_def)
  show "round32 4 = 4"
    by (subst round32_eval[of 2]) (simp_all add: pow2_def round_half_even_def Let_def)
  show "round32 (1 / 2 ^ 29) = 1 / 2 ^ 29"
    by (subst round32_eval[of "- 29"]) (simp_all add: pow2_def round_half_even_def Let_def)
  show "round32 (1 / 2 ^ 80) = 1 / 2 ^ 80"
    by (subst round32_eval[of "- 80"]) (simp_all add: pow2_def round_half_even_def Let_def)
  show "round32 (1 / 2 ^ 90) = 1 / 2 ^ 90"
    by (subst round32_eval[of "- 90"]) (simp_all add: pow2_def round_half_even_def Let_def)
  show "round32 (1 / 4) = 1 / 4"
    by (subst round32_eval[of "- 2"]) (simp_all add: pow2_def round_half_even_def Let_def)
qed

lemma is_f32_examples:
  "is_f32 (1 / 2 ^ 30)" "is_f32 4" "is_f32 1" "is_f32 (1 / 2 ^ 29)"
  "is_f32 (1 / 2 ^ 80)" "is_f32 (1 / 2 ^ 90)" "is_f32 (1 / 4)" "is_f32 0"
  using round32_examples round32_one round32_zero by (simp_all add: is_f32_def f32_max_def)

lemma ex_codebook_ok: "codebook_ok ex_codebook 1"
  unfolding codebook_ok_def ex_codebook_def codebook_size_def
  using is_f32_examples by (simp add: list_all_iff f32_finite_simps)

lemma ex_codebook_nth: "ex_codebook ! 0 = [Fin (1 / 2 ^ 30)]" "ex_codebook ! 1023 = [Fin 4]"
  by (simp_all add: ex_codebook_def)

lemma ex_indices:
  assumes "f32_key (f32_sq_dist [v] [Fin (1 / 2 ^ 30)]) \<le> f32_key (f32_sq_dist [v] [Fin 4])"
  shows "ivals (vq_encoding_indices ex_codebook \<lparr>shape = s, rows = [[v]]\<rparr>) = [0]"
proof -
  have "f32_argmin (map (f32_sq_dist [v]) ex_codebook) = 0"
    using assms
    by (simp add: ex_codebook_def f32_argmin_def argmin_def argmin_acc_keep not_less)
  then show ?thesis
    by (simp add: vq_encoding_indices_def t_argmin_def vq_distances_def
        squared_euclidean_distance_def)
qed

lemma ex_quantized:
  assumes "f32_key (f32_sq_dist [v] [Fin (1 / 2 ^ 30)]) \<le> f32_key (f32_sq_dist [v] [Fin 4])"
  shows "rows (vq_quantized ex_codebook \<lparr>shape = s, rows = [[v]]\<rparr>) = [[Fin (1 / 2 ^ 30)]]"
  by (simp add: vq_quantized_rows[OF ex_codebook_ok] ex_indices[OF assms] ex_codebook_nth)

section \<open>Distances of the examples\<close>

lemma f32_round_eq: "round32 r = v \<Longrightarrow> \<bar>v\<bar> \<le> f32_max \<Longrightarrow> f32_round r = Fin v"
  by (auto simp: f32_round_def Let_def)

lemma f32_sub_eq:
  "round32 (a - b) = v \<Longrightarrow> \<bar>v\<bar> \<le> f32_max \<Longrightarrow> f32_sub (Fin a) (Fin b) = Fin v"
  by (simp add: f32_sub_def f32_round_eq)

lemma f32_sq_dist_one:
  assumes "round32 (p - q) = d" "\<bar>d\<bar> \<le> f32_max" "round32 (d * d) = s" "is_f32 s"
  shows "f32_sq_dist [Fin p] [Fin q] = Fin s"
proof -
  have a: "f32_sub (Fin p) (Fin q) = Fin d"
    by (rule f32_sub_eq) (rule assms)+
  have b: "f32_round (d * d) = Fin s"
    using assms(3,4) by (simp add: f32_round_eq is_f32_def)
  show ?thesis
    using assms(4) by (simp add: f32_sq_dist_def a b f32_round_id)
qed

lemma round32_results:
  "round32 (1 - 1 / 2 ^ 30) = 1" "round32 (1 * 1) = 1"
  "round32 (1 - 4) = - 3" "round32 (- 3 * - 3) = 9"
  "round32 (1 / 2 ^ 29 - 1 / 2 ^ 30) = 1 / 2 ^ 30"
  "round32 (1 / 2 ^ 30 * (1 / 2 ^ 30)) = 1 / 2 ^ 60"
  "round32 (1 / 2 ^ 29 - 4) = - 4" "round32 (- 4 * - 4) = 16"
  "round32 (0 - 1 / 2 ^ 80) = - (1 / 2 ^ 80)" "round32 (- (1 / 2 ^ 80) * - (1 / 2 ^ 80)) = 0"
  "round32 (0 - 1 / 2 ^ 90) = - (1 / 2 ^ 90)" "round32 (- (1 / 2 ^ 90) * - (1 / 2 ^ 90)) = 0"
  "round32 (0 - 4) = - 4"
  "round32 (1 / 2 ^ 30 - 1) = - 1"
  "round32 (1 / 2 ^ 30 - 1 / 2 ^ 29) = 1 / 2 ^ 30 - 1 / 2 ^ 29"
proof -
  show "round32 (1 - 1 / 2 ^ 30) = 1"
    by (subst round32_eval[of "- 1"]) (simp_all add: pow2_def round_half_even_def Let_def)
  show "round32 (1 * 1) = 1"
    by (simp add: round32_one)
  show "round32 (1 - 4) = - 3"
    by (subst round32_eval[of 1]) (simp_all add: pow2_def round_half_even_def Let_def)
  show "round32 (- 3 * - 3) = 9"
    by (subst round32_eval[of 3]) (simp_all add: pow2_def round_half_even_def Let_def)
  show "round32 (1 / 2 ^ 29 - 1 / 2 ^ 30) = 1 / 2 ^ 30"
    by (subst round32_eval[of "- 30"]) (simp_all add: pow2_def round_half_even_def Let_def)
  show "round32 (1 / 2 ^ 30 * (1 / 2 ^ 30)) = 1 / 2 ^ 60"
    by (subst round32_eval[of "- 60"]) (simp_all add: pow2_def round_half_even_def Let_def)
  show "round32 (1 / 2 ^ 29 - 4) = - 4"
    by (subst round32_eval[of 1]) (simp_all add: pow2_def round_half_even_def Let_def)
  show "round32 (- 4 * - 4) = 16"
    by (subst round32_eval[of 4]) (simp_all add: pow2_def round_half_even_def Let_def)
  show "round32 (0 - 1 / 2 ^ 80) = - (1 / 2 ^ 80)"
    by (subst round32_eval[of "- 80"]) (simp_all add: pow2_def round_half_even_def Let_def)
  show "round32 (- (1 / 2 ^ 80) * - (1 / 2 ^ 80)) = 0"
    by (subst round32_eval_sub) (simp_all add: pow2_def round_half_even_def Let_def)
  show "round32 (0 - 1 / 2 ^ 90) = - (1 / 2 ^ 90)"
    by (subst round32_eval[of "- 90"]) (simp_all add: pow2_def round_half_even_def Let_def)
  show "round32 (- (1 / 2 ^ 90) * - (1 / 2 ^ 90)) = 0"
    by (subst round32_eval_sub) (simp_all add: pow2_def round_half_even_def Let_def)
  show "round32 (0 - 4) = - 4"
    by (subst round32_eval[of 2]) (simp_all add: pow2_def round_half_even_def Let_def)
  show "round32 (1 / 2 ^ 30 - 1) = - 1"
    by (subst round32_eval[of "- 1"]) (simp_all add: pow2_def round_half_even_def Let_def)
  show "round32 (1 / 2 ^ 30 - 1 / 2 ^ 29) = 1 / 2 ^ 30 - 1 / 2 ^ 29"
    by (subst round32_eval[of "- 30"]) (simp_all add: pow2_def round_half_even_def Let_def)
qed

lemma is_f32_results: "is_f32 9" "is_f32 16" "is_f32 (1 / 2 ^ 60)"
proof -
  have "round32 9 = 9"
    by (subst round32_eval[of 3]) (simp_all add: pow2_def round_half_even_def Let_def)
  then show "is_f32 9" by (simp add: is_f32_def f32_max_def)
  have "round32 16 = 16"
    by (subst round32_eval[of 4]) (simp_all add: pow2_def round_half_even_def Let_def)
  then show "is_f32 16" by (simp add: is_f32_def f32_max_def)
  have "round32 (1 / 2 ^ 60) = 1 / 2 ^ 60"
    by (subst round32_eval[of "- 60"]) (simp_all add: pow2_def round_half_even_def Let_def)
  then show "is_f32 (1 / 2 ^ 60)" by (simp add: is_f32_def f32_max_def)
qed

lemma ex_distances:
  "f32_sq_dist [Fin 1] [Fin (1 / 2 ^ 30)] = Fin 1"
  "f32_sq_dist [Fin 1] [Fin 4] = Fin 9"
  "f32_sq_dist [Fin (1 / 2 ^ 29)] [Fin (1 / 2 ^ 30)] = Fin (1 / 2 ^ 60)"
  "f32_sq_dist [Fin (1 / 2 ^ 29)] [Fin 4] = Fin 16"
  "f32_sq_dist [Fin 0] [Fin (1 / 2 ^ 80)] = Fin 0"
  "f32_sq_dist [Fin 0] [Fin (1 / 2 ^ 90)] = Fin 0"
  "f32_sq_dist [Fin 0] [Fin 4] = Fin 16"
proof -
  show "f32_sq_dist [Fin 1] [Fin (1 / 2 ^ 30)] = Fin 1"
    by (rule f32_sq_dist_one[where d = 1])
      (simp_all only: round32_results is_f32_examples, simp add: f32_max_def)
  show "f32_sq_dist [Fin 1] [Fin 4] = Fin 9"
    by (rule f32_sq_dist_one[where d = "- 3"])
      (simp_all only: round32_results is_f32_results, simp add: f32_max_def)
  show "f32_sq_dist [Fin (1 / 2 ^ 29)] [Fin (1 / 2 ^ 30)] = Fin (1 / 2 ^ 60)"
    by (rule f32_sq_dist_one[where d = "1 / 2 ^ 30"])
      (simp_all only: round32_results is_f32_results, simp add: f32_max_def)
  show "f32_sq_dist [Fin (1 / 2 ^ 29)] [Fin 4] = Fin 16"
    by (rule f32_sq_dist_one[where d = "- 4"])
      (simp_all only: round32_results is_f32_results, simp add: f32_max_def)
  show "f32_sq_dist [Fin 0] [Fin (1 / 2 ^ 80)] = Fin 0"
    by (rule f32_sq_dist_one[where d = "- (1 / 2 ^ 80)"])
      (simp_all only: round32_results is_f32_examples, simp add: f32_max_def)
  show "f32_sq_dist [Fin 0] [Fin (1 / 2 ^ 90)] = Fin 0"
    by (rule f32_sq_dist_one[where d = "- (1 / 2 ^ 90)"])
      (simp_all only: round32_results is_f32_examples, simp add: f32_max_def)
  show "f32_sq_dist [Fin 0] [Fin 4] = Fin 16"
    by (rule f32_sq_dist_one[where d = "- 4"])
      (simp_all only: round32_results is_f32_results, simp add: f32_max_def)
qed


section \<open>Round trip through indices\<close>



section \<open>First minimum\<close>

lemma argmin_acc_first_min:
  assumes "best < i" "i \<le> length xs" "\<forall>m<i. xs ! best \<le> xs ! m" "\<forall>m<best. xs ! best < xs ! m"
  shows "argmin_acc best (xs ! best) i (drop i xs) < length xs
         \<and> (\<forall>m<length xs. xs ! argmin_acc best (xs ! best) i (drop i xs) \<le> xs ! m)
         \<and> (\<forall>m<argmin_acc best (xs ! best) i (drop i xs).
               xs ! argmin_acc best (xs ! best) i (drop i xs) < xs ! m)"
  using assms
proof (induction "length xs - i" arbitrary: i best)
  case 0
  then have "drop i xs = []" "i = length xs" by simp_all
  with 0 show ?case by simp
next
  case (Suc n)
  then have i: "i < length xs" by simp
  then have d: "drop i xs = xs ! i # drop (Suc i) xs"
    by (simp add: Cons_nth_drop_Suc)
  have n: "n = length xs - Suc i" using Suc.hyps(2) by simp
  show ?case
  proof (cases "xs ! i < xs ! best")
    case True
    have a: "\<forall>m<Suc i. xs ! i \<le> xs ! m"
      using True Suc.prems(3) by (auto simp: less_Suc_eq intro: less_imp_le order.strict_trans2)
    have b: "\<forall>m<i. xs ! i < xs ! m"
      using True Suc.prems(3) by (auto intro: order.strict_trans2)
    show ?thesis
      using Suc.hyps(1)[OF n, of i] i a b True by (simp add: d)
  next
    case False
    have a: "\<forall>m<Suc i. xs ! best \<le> xs ! m"
      using False Suc.prems(3) by (auto simp: less_Suc_eq)
    show ?thesis
      using Suc.hyps(1)[OF n, of best] i a Suc.prems(1,4) False by (simp add: d)
  qed
qed

lemma argmin_first_min:
  assumes "xs \<noteq> []"
  shows "argmin xs < length xs \<and> (\<forall>m<length xs. xs ! argmin xs \<le> xs ! m)
         \<and> (\<forall>m<argmin xs. xs ! argmin xs < xs ! m)"
proof -
  obtain d ds where xs: "xs = d # ds" using assms by (cases xs) auto
  have "argmin xs = argmin_acc 0 (xs ! 0) 1 (drop 1 xs)"
    by (simp add: xs argmin_def)
  moreover have "argmin_acc 0 (xs ! 0) 1 (drop 1 xs) < length xs
         \<and> (\<forall>m<length xs. xs ! argmin_acc 0 (xs ! 0) 1 (drop 1 xs) \<le> xs ! m)
         \<and> (\<forall>m<argmin_acc 0 (xs ! 0) 1 (drop 1 xs).
               xs ! argmin_acc 0 (xs ! 0) 1 (drop 1 xs) < xs ! m)"
    by (rule argmin_acc_first_min) (simp_all add: xs)
  ultimately show ?thesis by simp
qed

lemma f32_argmin_first_min:
  assumes "ds \<noteq> []"
  shows "f32_argmin ds < length ds
         \<and> (\<forall>m<length ds. f32_key (ds ! f32_argmin ds) \<le> f32_key (ds ! m))
         \<and> (\<forall>m<f32_argmin ds. f32_key (ds ! f32_argmin ds) < f32_key (ds ! m))"
proof -
  have ne: "map f32_key ds \<noteq> []" using assms by simp
  have l: "f32_argmin ds < length ds" by (rule f32_argmin_less[OF assms])
  from argmin_first_min[OF ne] l show ?thesis
    by (auto simp: f32_argmin_def)
qed

lemma sq_dist_single: "sq_dist [a] [b] = (a - b) ^ 2"
  by (simp add: sq_dist_def)

lemma ex_nearest:
  "f32_key (f32_sq_dist [Fin 1] [Fin (1 / 2 ^ 30)]) \<le> f32_key (f32_sq_dist [Fin 1] [Fin 4])"
  "f32_key (f32_sq_dist [Fin (1 / 2 ^ 29)] [Fin (1 / 2 ^ 30)])
     \<le> f32_key (f32_sq_dist [Fin (1 / 2 ^ 29)] [Fin 4])"
  unfolding ex_distances f32_key_Fin by simp_all

lemma ex_tiny_indices: "ivals (vq_encoding_indices ex_codebook_tiny ex_x_zero) = [0]"
proof -
  have "map (f32_sq_dist [Fin 0]) ex_codebook_tiny = Fin 0 # Fin 0 # replicate 1022 (Fin 16)"
    by (simp only: ex_codebook_tiny_def list.map map_replicate ex_distances)
  then have "f32_argmin (map (f32_sq_dist [Fin 0]) ex_codebook_tiny) = 0"
    by (simp add: f32_argmin_def argmin_def argmin_acc_keep not_less f32_key_Fin)
  then show ?thesis
    by (simp add: vq_encoding_indices_def t_argmin_def vq_distances_def
        squared_euclidean_distance_def ex_x_zero_def)
qed

section \<open>Nearest-neighbour assignment\<close>

text \<open>
  Claim C2, as amended. At every spatial position of the input feature grid, the encoding
  index is the least index \<open>k\<close> in \<open>[0, codebook_size)\<close> that minimizes the float32 value
  computed for the squared Euclidean distance between the feature vector at that position
  and codebook entry \<open>k\<close>, in the order of \<open>jnp.argmin\<close>: no entry has a smaller computed
  distance, and every entry of lower index has a strictly larger one. The quantized vector
  at that position is the product of the one-hot encoding of \<open>k\<close> with the codebook. The
  index need not minimize the exact distance: for the feature value 0 and the codebook
  entries \<open>2^-80\<close> and \<open>2^-90\<close> at indices 0 and 1 both computed distances are 0 and the
  index is 0, although entry 1 is strictly nearer.
\<close>

theorem nearest_codebook_index:
  assumes "length codebook = codebook_size" "j < length (rows x)"
  shows "\<exists>k<codebook_size.
           ivals (vq_encoding_indices codebook x) ! j = int k
           \<and> (\<forall>m<codebook_size.
                 f32_key (f32_sq_dist (rows x ! j) (codebook ! k))
                   \<le> f32_key (f32_sq_dist (rows x ! j) (codebook ! m)))
           \<and> (\<forall>m<k. f32_key (f32_sq_dist (rows x ! j) (codebook ! k))
                        < f32_key (f32_sq_dist (rows x ! j) (codebook ! m)))
           \<and> rows (vq_quantized codebook x) ! j
               = map (f32_dot (one_hot (int k) codebook_size)) (transpose codebook)"
proof -
  let ?ds = "map (f32_sq_dist (rows x ! j)) codebook"
  have ne: "?ds \<noteq> []" using assms(1) by (auto simp: codebook_size_def)
  have idx: "ivals (vq_encoding_indices codebook x) ! j = int (f32_argmin ?ds)"
    using assms(2)
    by (simp add: vq_encoding_indices_def t_argmin_def vq_distances_def
        squared_euclidean_distance_def)
  have q: "rows (vq_quantized codebook x) ! j
      = map (f32_dot (one_hot (int (f32_argmin ?ds)) codebook_size)) (transpose codebook)"
    using assms(2) idx
    by (simp add: vq_quantized_def vq_encodings_def quantize_def t_dot_def t_one_hot_def
        vq_indices_length)
  from f32_argmin_first_min[OF ne] assms(1)
  have "f32_argmin ?ds < codebook_size"
    "\<forall>m<codebook_size. f32_key (f32_sq_dist (rows x ! j) (codebook ! f32_argmin ?ds))
        \<le> f32_key (f32_sq_dist (rows x ! j) (codebook ! m))"
    "\<forall>m<f32_argmin ?ds. f32_key (f32_sq_dist (rows x ! j) (codebook ! f32_argmin ?ds))
        < f32_key (f32_sq_dist (rows x ! j) (codebook ! m))"
    by auto
  with idx q show ?thesis by blast
qed

theorem nearest_codebook_index_witness:
  "length ex_codebook = codebook_size \<and> 0 < length (rows ex_x)
   \<and> ivals (vq_encoding_indices ex_codebook ex_x) = [0]
   \<and> (\<exists>k<codebook_size.
         ivals (vq_encoding_indices ex_codebook ex_x) ! 0 = int k
         \<and> (\<forall>m<codebook_size.
               f32_key (f32_sq_dist (rows ex_x ! 0) (ex_codebook ! k))
                 \<le> f32_key (f32_sq_dist (rows ex_x ! 0) (ex_codebook ! m)))
         \<and> (\<forall>m<k. f32_key (f32_sq_dist (rows ex_x ! 0) (ex_codebook ! k))
                      < f32_key (f32_sq_dist (rows ex_x ! 0) (ex_codebook ! m)))
         \<and> rows (vq_quantized ex_codebook ex_x) ! 0
             = map (f32_dot (one_hot (int k) codebook_size)) (transpose ex_codebook))"
proof -
  have l: "0 < length (rows ex_x)" by (simp add: ex_x_def)
  have i: "ivals (vq_encoding_indices ex_codebook ex_x) = [0]"
    unfolding ex_x_def by (rule ex_indices) (rule ex_nearest)
  show ?thesis
    using nearest_codebook_index[OF ex_codebook_length l] ex_codebook_length l i by blast
qed

theorem nearest_codebook_index_counterexample:
  "ivals (vq_encoding_indices ex_codebook_tiny ex_x_zero) = [0]
   \<and> length ex_codebook_tiny = codebook_size
   \<and> list_all f32_finite (rows ex_x_zero ! 0)
   \<and> list_all f32_finite (ex_codebook_tiny ! 0)
   \<and> list_all f32_finite (ex_codebook_tiny ! 1)
   \<and> f32_sq_dist (rows ex_x_zero ! 0) (ex_codebook_tiny ! 0) = Fin 0
   \<and> f32_sq_dist (rows ex_x_zero ! 0) (ex_codebook_tiny ! 1) = Fin 0
   \<and> sq_dist (map f32_value (rows ex_x_zero ! 0)) (map f32_value (ex_codebook_tiny ! 1))
       < sq_dist (map f32_value (rows ex_x_zero ! 0)) (map f32_value (ex_codebook_tiny ! 0))"
proof -
  have r: "map f32_value (rows ex_x_zero ! 0) = [0]"
    "map f32_value (ex_codebook_tiny ! 0) = [1 / 2 ^ 80]"
    "map f32_value (ex_codebook_tiny ! 1) = [1 / 2 ^ 90]"
    by (simp_all add: ex_x_zero_def ex_codebook_tiny_def f32_value_def)
  have "((1::real) / 2 ^ 90) ^ 2 < (1 / 2 ^ 80) ^ 2"
    by (rule power_strict_mono) simp_all
  then have d: "sq_dist (map f32_value (rows ex_x_zero ! 0)) (map f32_value (ex_codebook_tiny ! 1))
       < sq_dist (map f32_value (rows ex_x_zero ! 0)) (map f32_value (ex_codebook_tiny ! 0))"
    unfolding r sq_dist_single by (simp only: diff_0 power2_minus)
  have f: "list_all f32_finite (rows ex_x_zero ! 0)" "list_all f32_finite (ex_codebook_tiny ! 0)"
    "list_all f32_finite (ex_codebook_tiny ! 1)"
    using is_f32_examples
    by (simp_all add: ex_x_zero_def ex_codebook_tiny_def f32_finite_simps)
  have e: "f32_sq_dist (rows ex_x_zero ! 0) (ex_codebook_tiny ! 0) = Fin 0"
    "f32_sq_dist (rows ex_x_zero ! 0) (ex_codebook_tiny ! 1) = Fin 0"
    unfolding ex_x_zero_def ex_codebook_tiny_def by (simp_all only: ftensor.simps nth_Cons_0 nth_Cons_Suc One_nat_def ex_distances)
  have l: "length ex_codebook_tiny = codebook_size"
    by (simp add: ex_codebook_tiny_def codebook_size_def)
  show ?thesis using ex_tiny_indices d f e l by blast
qed

section \<open>Straight-through entries\<close>




lemma vq_call_fst:
  "fst (vq_call el train cb x) =
     (if train then t_add x (stop_gradient (t_sub (vq_quantized cb x) x)) else vq_quantized cb x)"
  by (simp add: vq_call_def Let_def)

lemma vq_quantized_shape:
  "shape (vq_quantized cb x) = butlast (butlast (shape x) @ [codebook_size]) @ [length (transpose cb)]"
  by (simp add: vq_quantized_def vq_encodings_def quantize_def t_dot_def t_one_hot_def
      vq_encoding_indices_def t_argmin_def vq_distances_def)

lemma ex_transpose: "length (transpose ex_codebook) = 1"
proof -
  have "transpose ex_codebook = map (\<lambda>i. map (\<lambda>j. ex_codebook ! j ! i) [0..<length ex_codebook]) [0..<1]"
  proof (rule transpose_rectangle)
    show "ex_codebook = [] \<Longrightarrow> 1 = 0"
      using ex_codebook_length by (auto simp: codebook_size_def)
    show "length (ex_codebook ! i) = 1" if "i < length ex_codebook" for i
      using codebook_ok_D(2)[OF ex_codebook_ok] nth_mem[OF that] by blast
  qed
  then show ?thesis by simp
qed

lemma ex_quantized_full:
  assumes "f32_key (f32_sq_dist [v] [Fin (1 / 2 ^ 30)]) \<le> f32_key (f32_sq_dist [v] [Fin 4])"
  shows "vq_quantized ex_codebook \<lparr>shape = [1, 1, 1, 1], rows = [[v]]\<rparr>
          = \<lparr>shape = [1, 1, 1, 1], rows = [[Fin (1 / 2 ^ 30)]]\<rparr>"
  by (intro ftensor.equality) (simp_all add: ex_quantized[OF assms] vq_quantized_shape ex_transpose)

section \<open>Straight-through numerics\<close>




section \<open>Keys of the result record\<close>

lemma vq_call_dom:
  "dom (snd (vq_call el True cb x)) =
     {''quantizer_loss'', ''e_latent_loss'', ''q_latent_loss'', ''entropy_loss'',
      ''encodings'', ''encoding_indices'', ''raw''}"
  "dom (snd (vq_call el False cb x)) = {''encodings'', ''encoding_indices'', ''raw''}"
  by (auto simp: vq_call_def Let_def split: if_splits)

section \<open>Result record\<close>

text \<open>
  Claim C3, as amended. A forward pass returns a pair: the quantized output, and next to it
  (not inside it) the result record. The record holds the one-hot encodings, the encoding
  indices and the raw features in both modes, and the four loss components (commitment
  loss, codebook loss, entropy loss, total quantizer loss) in training mode and only then.
\<close>

theorem result_record_contents:
  "fst (vq_call entropy_loss True codebook x)
     = t_add x (stop_gradient (t_sub (vq_quantized codebook x) x))
   \<and> fst (vq_call entropy_loss False codebook x) = vq_quantized codebook x
   \<and> dom (snd (vq_call entropy_loss True codebook x)) =
       {''quantizer_loss'', ''e_latent_loss'', ''q_latent_loss'', ''entropy_loss'',
        ''encodings'', ''encoding_indices'', ''raw''}
   \<and> dom (snd (vq_call entropy_loss False codebook x)) =
       {''encodings'', ''encoding_indices'', ''raw''}
   \<and> snd (vq_call entropy_loss train codebook x) ''encodings''
       = Some (FTensor (vq_encodings codebook x))
   \<and> snd (vq_call entropy_loss train codebook x) ''encoding_indices''
       = Some (ITensor (vq_encoding_indices codebook x))
   \<and> snd (vq_call entropy_loss train codebook x) ''raw'' = Some (FTensor x)
   \<and> snd (vq_call entropy_loss True codebook x) ''e_latent_loss''
       = Some (Scalar (vq_e_latent_loss codebook x))
   \<and> snd (vq_call entropy_loss True codebook x) ''q_latent_loss''
       = Some (Scalar (vq_q_latent_loss codebook x))
   \<and> snd (vq_call entropy_loss True codebook x) ''entropy_loss''
       = Some (Scalar (vq_entropy_loss entropy_loss codebook x))
   \<and> snd (vq_call entropy_loss True codebook x) ''quantizer_loss''
       = Some (Scalar (vq_loss entropy_loss codebook x))"
  unfolding vq_call_dom vq_call_snd vq_call_fst
  by (simp add: vq_call_def Let_def)

theorem result_record_counterexample:
  "dom (snd (vq_call ex_entropy_loss False ex_codebook ex_x))
     = {''encodings'', ''encoding_indices'', ''raw''}
   \<and> snd (vq_call ex_entropy_loss False ex_codebook ex_x) ''encodings''
       \<noteq> Some (FTensor (fst (vq_call ex_entropy_loss False ex_codebook ex_x)))
   \<and> snd (vq_call ex_entropy_loss False ex_codebook ex_x) ''encoding_indices''
       \<noteq> Some (FTensor (fst (vq_call ex_entropy_loss False ex_codebook ex_x)))
   \<and> snd (vq_call ex_entropy_loss False ex_codebook ex_x) ''raw''
       \<noteq> Some (FTensor (fst (vq_call ex_entropy_loss False ex_codebook ex_x)))"
proof -
  have q: "vq_quantized ex_codebook ex_x = \<lparr>shape = [1, 1, 1, 1], rows = [[Fin (1 / 2 ^ 30)]]\<rparr>"
    unfolding ex_x_def by (rule ex_quantized_full) (rule ex_nearest)
  have e: "shape (vq_encodings ex_codebook ex_x) = [1, 1, 1, codebook_size]"
    by (simp add: vq_encodings_def t_one_hot_def vq_encoding_indices_def t_argmin_def
        vq_distances_def ex_x_def)
  have ne: "vq_encodings ex_codebook ex_x \<noteq> \<lparr>shape = [1, 1, 1, 1], rows = [[Fin (1 / 2 ^ 30)]]\<rparr>"
    using e by (auto simp: codebook_size_def)
  have nr: "ex_x \<noteq> \<lparr>shape = [1, 1, 1, 1], rows = [[Fin (1 / 2 ^ 30)]]\<rparr>"
    by (simp add: ex_x_def)
  show ?thesis
    unfolding vq_call_dom vq_call_snd vq_call_fst using ne nr by (simp add: q)
qed

section \<open>Non-negative sums\<close>

lemma foldl_f32_add_nonneg:
  "f32_nonneg a \<Longrightarrow> \<forall>v \<in> set xs. f32_nonneg v \<Longrightarrow> f32_nonneg (foldl f32_add a xs)"
  by (induction xs arbitrary: a) (simp_all add: f32_add_nonneg)

lemma f32_finite_sub_not_NaN: "f32_finite a \<Longrightarrow> f32_finite b \<Longrightarrow> f32_sub a b \<noteq> NaN"
  by (cases a; cases b) (simp_all add: f32_finite_simps f32_sub_finite_not_NaN)

lemma map2_sub_not_NaN:
  assumes "list_all f32_finite u" "list_all f32_finite w" "v \<in> set (map2 f32_sub u w)"
  shows "v \<noteq> NaN"
proof -
  from assms(3) obtain a b where "(a, b) \<in> set (zip u w)" "v = f32_sub a b" by auto
  then have "a \<in> set u" "b \<in> set w" "v = f32_sub a b"
    by (auto dest: set_zip_leftD set_zip_rightD)
  then show ?thesis
    using assms(1,2) f32_finite_sub_not_NaN by (auto simp: list_all_iff)
qed

lemma rows_sub_not_NaN:
  assumes "\<forall>r \<in> set qs. list_all f32_finite r" "\<forall>r \<in> set xs. list_all f32_finite r"
    "v \<in> set (concat (map2 (map2 f32_sub) qs xs))"
  shows "v \<noteq> NaN"
proof -
  from assms(3) obtain u w where uw: "(u, w) \<in> set (zip qs xs)" "v \<in> set (map2 f32_sub u w)"
    by auto
  then have "u \<in> set qs" "w \<in> set xs"
    by (auto dest: set_zip_leftD set_zip_rightD)
  then have "list_all f32_finite u" "list_all f32_finite w" using assms(1,2) by blast+
  then show ?thesis using uw(2) by (rule map2_sub_not_NaN)
qed

lemma rows_sub_size:
  assumes "length qs = length xs" "\<forall>r \<in> set qs. length r = c" "\<forall>r \<in> set xs. length r = c"
  shows "length (concat (map2 (map2 f) qs xs)) = length (concat xs)"
  using assms by (induction qs xs rule: list_induct2) simp_all

lemma finite_grid_D:
  assumes "finite_grid x c"
  shows "\<forall>r \<in> set (rows x). length r = c" "\<forall>r \<in> set (rows x). list_all f32_finite r"
  using assms by (auto simp: finite_grid_def list_all_iff)

lemma vq_quantized_rows_ok:
  assumes ok: "codebook_ok cb c"
  shows "length (rows (vq_quantized cb x)) = length (rows x)"
    "\<forall>r \<in> set (rows (vq_quantized cb x)). length r = c"
    "\<forall>r \<in> set (rows (vq_quantized cb x)). list_all f32_finite r"
proof -
  have m: "cb ! nat i \<in> set cb" if "i \<in> set (ivals (vq_encoding_indices cb x))" for i
  proof -
    from vq_indices_bound[OF codebook_ok_D(1)[OF ok] that]
    have "0 \<le> i" "i < int (length cb)" using codebook_ok_D(1)[OF ok] by simp_all
    then have "nat i < length cb" by linarith
    then show ?thesis by simp
  qed
  show "length (rows (vq_quantized cb x)) = length (rows x)"
    by (simp add: vq_quantized_rows[OF ok] vq_indices_length)
  show "\<forall>r \<in> set (rows (vq_quantized cb x)). length r = c"
    using m codebook_ok_D(2)[OF ok] by (auto simp: vq_quantized_rows[OF ok])
  show "\<forall>r \<in> set (rows (vq_quantized cb x)). list_all f32_finite r"
    using m codebook_ok_D(3)[OF ok] by (auto simp: vq_quantized_rows[OF ok])
qed

lemma t_mean_square_nonneg:
  assumes "\<forall>v \<in> set (concat (rows d)). v \<noteq> NaN" "0 < t_size d" "t_size d < 2 ^ 64"
  shows "f32_nonneg (t_mean (t_square d))"
proof -
  have sz: "t_size (t_square d) = t_size d"
    by (simp add: t_size_def t_square_def tmap_def length_concat comp_def)
  have "\<forall>v \<in> set (concat (rows (t_square d))). f32_nonneg v"
    using assms(1) by (auto simp: t_square_def tmap_def intro!: f32_square_nonneg)
  then have s: "f32_nonneg (foldl f32_add (Fin 0) (concat (rows (t_square d))))"
    by (intro foldl_f32_add_nonneg) (simp_all add: f32_nonneg_simps)
  from f32_recip_count[OF assms(2,3)] obtain p where
    p: "0 < p" "f32_div (Fin 1) (f32_round (real (t_size d))) = Fin p" by blast
  show ?thesis
    unfolding t_mean_def sz p(2) by (rule f32_mul_nonneg_pos[OF s p(1)])
qed

lemma vq_diff_facts:
  assumes ok: "codebook_ok cb c" and g: "finite_grid x c"
  shows "\<forall>v \<in> set (concat (rows (t_sub (vq_quantized cb x) x))). v \<noteq> NaN"
    "t_size (t_sub (vq_quantized cb x) x) = t_size x"
proof -
  show "\<forall>v \<in> set (concat (rows (t_sub (vq_quantized cb x) x))). v \<noteq> NaN"
    unfolding t_sub_def tmap2_def
    using rows_sub_not_NaN[OF vq_quantized_rows_ok(3)[OF ok] finite_grid_D(2)[OF g]]
    by simp
  show "t_size (t_sub (vq_quantized cb x) x) = t_size x"
    unfolding t_sub_def tmap2_def t_size_def
    using rows_sub_size[OF vq_quantized_rows_ok(1,2)[OF ok] finite_grid_D(1)[OF g]]
    by simp
qed

lemma commitment_cost_f32: "f32_round commitment_cost = Fin (1 / 4)"
  unfolding commitment_cost_def by (rule f32_round_id) (rule is_f32_examples)

lemma ex_grid: "finite_grid ex_x 1" "t_size ex_x = 1"
  using is_f32_examples by (simp_all add: finite_grid_def ex_x_def t_size_def f32_finite_simps)

lemma t_mean_empty: "rows a = [] \<Longrightarrow> t_mean a = NaN"
  by (simp add: t_mean_def t_size_def f32_round_zero)

lemma ex_empty_rows: "rows (t_square (t_sub (vq_quantized ex_codebook ex_x_empty) ex_x_empty)) = []"
  by (simp add: t_square_def tmap_def t_sub_def tmap2_def ex_x_empty_def)

section \<open>Loss non-negativity\<close>

text \<open>
  Claim C6, as amended. In training mode, for a float32 codebook and a feature grid of
  finite float32 values with at least one and fewer than \<open>2^64\<close> entries, the commitment
  loss (the float32 mean of the squared entries of \<open>quantized - x\<close>, times 0.25) and the
  codebook loss (the same mean) are non-negative (possibly infinite), and the total
  quantizer loss is the float32 sum of commitment loss, codebook loss and entropy loss;
  these are the values the result record holds. On a feature grid with no entry (a batch
  of size 0) both means are NaN, which is not non-negative.
\<close>

theorem losses_nonneg:
  assumes "codebook_ok codebook c" "finite_grid x c" "0 < t_size x" "t_size x < 2 ^ 64"
  shows "f32_nonneg (vq_e_latent_loss codebook x) \<and> f32_nonneg (vq_q_latent_loss codebook x)
         \<and> vq_loss entropy_loss codebook x =
             f32_add (f32_add (vq_e_latent_loss codebook x) (vq_q_latent_loss codebook x))
               (vq_entropy_loss entropy_loss codebook x)
         \<and> snd (vq_call entropy_loss True codebook x) ''e_latent_loss''
             = Some (Scalar (vq_e_latent_loss codebook x))
         \<and> snd (vq_call entropy_loss True codebook x) ''q_latent_loss''
             = Some (Scalar (vq_q_latent_loss codebook x))
         \<and> snd (vq_call entropy_loss True codebook x) ''entropy_loss''
             = Some (Scalar (vq_entropy_loss entropy_loss codebook x))
         \<and> snd (vq_call entropy_loss True codebook x) ''quantizer_loss''
             = Some (Scalar (vq_loss entropy_loss codebook x))"
proof -
  let ?d = "t_sub (vq_quantized codebook x) x"
  have sz: "0 < t_size ?d" "t_size ?d < 2 ^ 64"
    using vq_diff_facts(2)[OF assms(1,2)] assms(3,4) by simp_all
  have m: "f32_nonneg (t_mean (t_square ?d))"
    by (rule t_mean_square_nonneg[OF vq_diff_facts(1)[OF assms(1,2)] sz])
  have q: "f32_nonneg (vq_q_latent_loss codebook x)"
    unfolding vq_q_latent_loss_def stop_gradient_def by (rule m)
  have e: "f32_nonneg (vq_e_latent_loss codebook x)"
    unfolding vq_e_latent_loss_def stop_gradient_def commitment_cost_f32
    by (rule f32_mul_nonneg_pos[OF m]) simp
  show ?thesis
    using e q by (simp add: vq_loss_def vq_call_def Let_def)
qed

theorem losses_nonneg_witness:
  "codebook_ok ex_codebook 1 \<and> finite_grid ex_x 1 \<and> 0 < t_size ex_x \<and> t_size ex_x < 2 ^ 64
   \<and> f32_nonneg (vq_e_latent_loss ex_codebook ex_x)
   \<and> f32_nonneg (vq_q_latent_loss ex_codebook ex_x)
   \<and> vq_loss ex_entropy_loss ex_codebook ex_x =
       f32_add (f32_add (vq_e_latent_loss ex_codebook ex_x) (vq_q_latent_loss ex_codebook ex_x))
         (vq_entropy_loss ex_entropy_loss ex_codebook ex_x)"
proof -
  have s: "0 < t_size ex_x" "t_size ex_x < 2 ^ 64"
    by (simp_all add: ex_grid(2))
  show ?thesis
    using losses_nonneg[OF ex_codebook_ok ex_grid(1) s, of ex_entropy_loss]
      ex_codebook_ok ex_grid(1) s by blast
qed

theorem losses_nonneg_counterexample:
  "codebook_ok ex_codebook 1 \<and> finite_grid ex_x_empty 1 \<and> t_size ex_x_empty = 0
   \<and> vq_e_latent_loss ex_codebook ex_x_empty = NaN
   \<and> vq_q_latent_loss ex_codebook ex_x_empty = NaN
   \<and> \<not> f32_nonneg (vq_e_latent_loss ex_codebook ex_x_empty)
   \<and> \<not> f32_nonneg (vq_q_latent_loss ex_codebook ex_x_empty)
   \<and> snd (vq_call ex_entropy_loss True ex_codebook ex_x_empty) ''e_latent_loss''
       = Some (Scalar NaN)
   \<and> snd (vq_call ex_entropy_loss True ex_codebook ex_x_empty) ''q_latent_loss''
       = Some (Scalar NaN)"
proof -
  have q: "vq_q_latent_loss ex_codebook ex_x_empty = NaN"
    unfolding vq_q_latent_loss_def stop_gradient_def
    by (rule t_mean_empty) (rule ex_empty_rows)
  have e: "vq_e_latent_loss ex_codebook ex_x_empty = NaN"
    unfolding vq_e_latent_loss_def stop_gradient_def
    by (simp add: t_mean_empty[OF ex_empty_rows])
  have g: "finite_grid ex_x_empty 1" "t_size ex_x_empty = 0"
    by (simp_all add: finite_grid_def ex_x_empty_def t_size_def)
  show ?thesis
    using ex_codebook_ok g by (simp add: e q f32_nonneg_simps vq_call_def Let_def)
qed

end
